theory Spec2Isabelle
  imports Main
begin

section \<open>JavaScript string primitives\<close>

text \<open>
  Strings are lists of 8-bit characters and stand for ASCII text: on ASCII text the
  functions below are the JavaScript ones. The whitespace class of \<^verbatim>\<open>trim\<close> and
  \<^verbatim>\<open>\s\<close>, the line terminators and the case mapping of \<^verbatim>\<open>toLowerCase\<close> are the
  ASCII parts of the JavaScript ones; what JavaScript does with other characters (it also
  strips U+00A0, it also lowers non-ASCII capitals) is not modelled, and a statement that
  depends on it carries the hypothesis \<open>ascii\<close>. \<^verbatim>\<open>.\<close> in a regular expression matches
  every character but a line terminator.
\<close>

definition ascii :: "string \<Rightarrow> bool" where
  "ascii s \<longleftrightarrow> list_all (\<lambda>c. (of_char c :: nat) < 128) s"

definition is_space :: "char \<Rightarrow> bool" where
  "is_space c \<longleftrightarrow> c \<in> set [CHR '' '', CHR 0x09, CHR 0x0A, CHR 0x0B, CHR 0x0C, CHR 0x0D]"

definition is_line_terminator :: "char \<Rightarrow> bool" where
  "is_line_terminator c \<longleftrightarrow> c = CHR 0x0A \<or> c = CHR 0x0D"

definition is_digit :: "char \<Rightarrow> bool" where
  "is_digit c \<longleftrightarrow> c \<in> set ''0123456789''"

definition trim :: "string \<Rightarrow> string" where
  "trim s = rev (dropWhile is_space (rev (dropWhile is_space s)))"

definition startsWith :: "string \<Rightarrow> string \<Rightarrow> bool" where
  "startsWith s p \<longleftrightarrow> take (length p) s = p"

definition lower_char :: "char \<Rightarrow> char" where
  "lower_char c =
     (case map_of (zip ''ABCDEFGHIJKLMNOPQRSTUVWXYZ'' ''abcdefghijklmnopqrstuvwxyz'') c of
        Some d \<Rightarrow> d
      | None \<Rightarrow> c)"

definition toLowerCase :: "string \<Rightarrow> string" where
  "toLowerCase s = map lower_char s"

text \<open>\<^verbatim>\<open>s.split(sep)\<close> for a one-character separator: never the empty list.\<close>

fun split_on :: "char \<Rightarrow> string \<Rightarrow> string list" where
  "split_on sep [] = [[]]"
| "split_on sep (c # cs) =
     (if c = sep then [] # split_on sep cs
      else (case split_on sep cs of
              [] \<Rightarrow> [[c]]
            | l # ls \<Rightarrow> (c # l) # ls))"

text \<open>A value that is a string or \<^verbatim>\<open>undefined\<close>: truthy when present and not empty.\<close>

definition truthy :: "string option \<Rightarrow> bool" where
  "truthy v \<longleftrightarrow> (case v of None \<Rightarrow> False | Some s \<Rightarrow> s \<noteq> [])"

definition js_or :: "string option \<Rightarrow> string \<Rightarrow> string" where
  "js_or v d = (case v of None \<Rightarrow> d | Some s \<Rightarrow> if s = [] then d else s)"

definition js_or_opt :: "string option \<Rightarrow> string option \<Rightarrow> string option" where
  "js_or_opt v w = (if truthy v then v else w)"

definition digit_char :: "nat \<Rightarrow> char" where
  "digit_char d = ''0123456789'' ! d"

text \<open>The decimal text of a number in a template literal.\<close>

function show_nat :: "nat \<Rightarrow> string" where
  "show_nat n = (if n < 10 then [digit_char n] else show_nat (n div 10) @ [digit_char (n mod 10)])"
  by pat_completeness auto
termination
  by (relation "measure id") auto

declare show_nat.simps [simp del]

definition show_int :: "int \<Rightarrow> string" where
  "show_int i = (if i < 0 then CHR ''-'' # show_nat (nat (- i)) else show_nat (nat i))"

section \<open>Inventory service (inventoryService.js)\<close>

text \<open>
  A server of the request body. \<open>None\<close> is an absent (\<^verbatim>\<open>undefined\<close>) field; the
  port is a number, as the API documents it, and the host name is there: the request
  validation (\<open>validateServers\<close>) refuses a server without one.
\<close>

record server =
  hostname :: string
  ssh_port :: "nat option"
  ssh_user :: "string option"
  ssh_user_type :: "string option"
  ssh_auth_type :: "string option"
  ssh_key :: "string option"
  password :: "string option"
  sudo_password :: "string option"
  role :: "string option"
  ansible_user :: "string option"

record config =
  sshCommonArgs :: string
  inventoryDir :: string

text \<open>\<^verbatim>\<open>server.ssh_port || 22\<close>, as text.\<close>

definition effective_port :: "server \<Rightarrow> nat" where
  "effective_port s = (case ssh_port s of None \<Rightarrow> 22 | Some p \<Rightarrow> if p = 0 then 22 else p)"

definition port_text :: "server \<Rightarrow> string" where
  "port_text s = show_nat (effective_port s)"

definition keyPath :: "server \<Rightarrow> string" where
  "keyPath s = ''/tmp/ansible_key_'' @ map (\<lambda>c. if c = CHR ''.'' then CHR ''_'' else c) (hostname s) @ ''.pem''"

definition formatServerLine :: "server \<Rightarrow> string \<Rightarrow> string" where
  "formatServerLine s name =
     (let line0 = name @ '' ansible_host='' @ hostname s @ '' ansible_port='' @ port_text s;
          sshUser = js_or (ssh_user s) ''root'';
          sshUserType = js_or (ssh_user_type s) ''root'';
          sshAuthType = js_or (ssh_auth_type s) ''password'';
          line1 = line0 @ '' ansible_user='' @ sshUser;
          line2 = (if sshAuthType = ''key''
                   then (if truthy (ssh_key s)
                         then line1 @ '' ansible_ssh_private_key_file='' @ keyPath s
                         else line1)
                   else (if truthy (password s)
                         then line1 @ '' ansible_ssh_pass='' @ the (password s)
                         else line1))
      in if sshUserType = ''sudo''
         then (let line3 = line2 @ '' ansible_become=yes ansible_become_method=sudo'';
                   sudoPass = js_or_opt (sudo_password s) (password s)
               in if truthy sudoPass then line3 @ '' ansible_become_pass='' @ the sudoPass else line3)
         else line2)"

text \<open>
  \<^verbatim>\<open>xs.forEach((server, idx) => content += formatServerLine(server, `<prefix>${idx}`) + '\n')\<close>
\<close>

definition host_lines :: "string \<Rightarrow> server list \<Rightarrow> string" where
  "host_lines prefix xs =
     concat (map (\<lambda>(idx, s). formatServerLine s (prefix @ show_nat idx) @ ''\<newline>'') (enumerate 0 xs))"

text \<open>A group that is written only when it has a server.\<close>

definition group_block :: "string \<Rightarrow> string \<Rightarrow> server list \<Rightarrow> string" where
  "group_block header prefix xs =
     (if xs \<noteq> [] then header @ ''\<newline>'' @ host_lines prefix xs @ ''\<newline>'' else [])"

definition child_line :: "string \<Rightarrow> server list \<Rightarrow> string" where
  "child_line name xs = (if xs \<noteq> [] then name @ ''\<newline>'' else [])"

definition has_role :: "string \<Rightarrow> server \<Rightarrow> bool" where
  "has_role r s \<longleftrightarrow> role s = Some r"

definition primary_role :: "server \<Rightarrow> bool" where
  "primary_role s \<longleftrightarrow> role s = Some ''primary'' \<or> \<not> truthy (role s)"

definition master_role :: "server \<Rightarrow> bool" where
  "master_role s \<longleftrightarrow> role s = Some ''master'' \<or> role s = Some ''k8s-master''"

definition worker_role :: "server \<Rightarrow> bool" where
  "worker_role s \<longleftrightarrow> role s = Some ''worker'' \<or> role s = Some ''k8s-worker''"

definition server_key :: "server \<Rightarrow> string" where
  "server_key s = hostname s @ '':'' @ port_text s"

text \<open>The loop of the env-check branch: \<open>seen\<close> is the Set, \<open>acc\<close> is \<^verbatim>\<open>uniqueServers\<close>.\<close>

fun unique_loop :: "string set \<Rightarrow> server list \<Rightarrow> server list \<Rightarrow> server list" where
  "unique_loop seen acc [] = acc"
| "unique_loop seen acc (s # ss) =
     (if server_key s \<notin> seen
      then unique_loop (insert (server_key s) seen) (acc @ [s]) ss
      else unique_loop seen acc ss)"

definition uniqueServers :: "server list \<Rightarrow> server list" where
  "uniqueServers servers = unique_loop {} [] servers"

text \<open>The part of the document before the common variables: the groups.\<close>

definition inventoryGroups :: "server list \<Rightarrow> string \<Rightarrow> string" where
  "inventoryGroups servers playbookType =
     (if playbookType = ''mysql'' then
        (let primaryServers = filter primary_role servers;
             secondaryServers = filter (has_role ''secondary'') servers
         in group_block ''[primary]'' ''mysql-primary-'' primaryServers
            @ group_block ''[secondary]'' ''mysql-secondary-'' secondaryServers
            @ ''[mysql:children]\<newline>''
            @ child_line ''primary'' primaryServers
            @ child_line ''secondary'' secondaryServers)
      else if playbookType = ''mongodb'' then
        (let primaryServers = filter primary_role servers;
             secondaryServers = filter (has_role ''secondary'') servers;
             arbiterServers = filter (has_role ''arbiter'') servers
         in group_block ''[primary]'' ''mongo-primary-'' primaryServers
            @ group_block ''[secondary]'' ''mongo-secondary-'' secondaryServers
            @ group_block ''[arbiter]'' ''mongo-arbiter-'' arbiterServers
            @ ''[mongo:children]\<newline>''
            @ child_line ''primary'' primaryServers
            @ child_line ''secondary'' secondaryServers
            @ child_line ''arbiter'' arbiterServers)
      else if playbookType = ''kubernetes'' then
        (let masterServers = filter master_role servers;
             workerServers = filter worker_role servers
         in group_block ''[master]'' ''k8s-master-'' masterServers
            @ group_block ''[worker]'' ''k8s-worker-'' workerServers
            @ ''[kubernetes:children]\<newline>''
            @ child_line ''master'' masterServers
            @ child_line ''worker'' workerServers)
      else if playbookType = ''env-check'' then
        ''[all]\<newline>'' @ host_lines ''server-'' (uniqueServers servers)
      else
        ''[all]\<newline>'' @ host_lines ''server-'' servers)"

text \<open>\<^verbatim>\<open>servers.find(s => s.ansible_user)?.ansible_user || 'ubuntu'\<close>\<close>

definition defaultUser :: "server list \<Rightarrow> string" where
  "defaultUser servers =
     (case find (\<lambda>s. truthy (ansible_user s)) servers of
        None \<Rightarrow> ''ubuntu''
      | Some s \<Rightarrow> js_or (ansible_user s) ''ubuntu'')"

definition commonVars :: "config \<Rightarrow> server list \<Rightarrow> string" where
  "commonVars cfg servers =
     ''\<newline>[all:vars]\<newline>''
     @ ''ansible_user='' @ defaultUser servers @ ''\<newline>''
     @ ''ansible_become=true\<newline>''
     @ ''ansible_ssh_common_args='' @ [CHR 0x27] @ sshCommonArgs cfg @ [CHR 0x27] @ ''\<newline>''"

definition generateInventoryContent :: "config \<Rightarrow> server list \<Rightarrow> string \<Rightarrow> string" where
  "generateInventoryContent cfg servers playbookType =
     inventoryGroups servers playbookType @ commonVars cfg servers"

subsection \<open>Files\<close>

type_synonym fs = "string \<Rightarrow> string option"

datatype fs_error = ENOENT string

definition fs_unlink :: "fs \<Rightarrow> string \<Rightarrow> fs_error + fs" where
  "fs_unlink files p = (case files p of None \<Rightarrow> Inl (ENOENT p) | Some _ \<Rightarrow> Inr (files(p := None)))"

definition uses_key :: "server \<Rightarrow> bool" where
  "uses_key s \<longleftrightarrow> ssh_auth_type s = Some ''key'' \<and> truthy (ssh_key s)"

text \<open>
  \<^verbatim>\<open>fs.writeFile\<close>: \<open>writable\<close> says where the host lets the process write (the
  directory is there, the process may write to it); elsewhere the write fails.
\<close>

definition fs_writeFile :: "(string \<Rightarrow> bool) \<Rightarrow> fs \<Rightarrow> string \<Rightarrow> string \<Rightarrow> fs_error + fs" where
  "fs_writeFile writable files p text = (if writable p then Inr (files(p \<mapsto> text)) else Inl (ENOENT p))"

text \<open>The loop stops at the first key file that cannot be written.\<close>

fun writeSSHKeys :: "(string \<Rightarrow> bool) \<Rightarrow> server list \<Rightarrow> fs \<Rightarrow> fs_error + fs" where
  "writeSSHKeys writable [] files = Inr files"
| "writeSSHKeys writable (s # ss) files =
     (if uses_key s
      then (case fs_writeFile writable files (keyPath s) (the (ssh_key s)) of
              Inl e \<Rightarrow> Inl e
            | Inr files' \<Rightarrow> writeSSHKeys writable ss files')
      else writeSSHKeys writable ss files)"

definition inventoryPath :: "config \<Rightarrow> string \<Rightarrow> string" where
  "inventoryPath cfg inventoryId = inventoryDir cfg @ ''/'' @ inventoryId @ ''.ini''"

text \<open>
  \<open>generateInventory\<close>: \<open>inventoryId\<close> is the text of the eight random bytes, \<open>files\<close>
  the content of each path before the call, \<open>writable\<close> the paths the host lets the
  process write once \<open>ensureInventoryDir\<close> has tried to make the directory (its error is
  logged and dropped). The key files are written first; a write that fails rejects the
  call, and then no inventory file is written. On success the result is the returned pair
  and the files after the writes.
\<close>

definition generateInventory ::
  "(string \<Rightarrow> bool) \<Rightarrow> config \<Rightarrow> string \<Rightarrow> fs \<Rightarrow> server list \<Rightarrow> string
     \<Rightarrow> fs_error + ((string \<times> string) \<times> fs)" where
  "generateInventory writable cfg inventoryId files servers playbookType =
     (let path = inventoryPath cfg inventoryId
      in case writeSSHKeys writable servers files of
           Inl e \<Rightarrow> Inl e
         | Inr files1 \<Rightarrow>
             (let inventoryContent = generateInventoryContent cfg servers playbookType
              in case fs_writeFile writable files1 path inventoryContent of
                   Inl e \<Rightarrow> Inl e
                 | Inr files2 \<Rightarrow> Inr ((inventoryId, path), files2)))"

text \<open>
  \<open>cleanupInventory\<close> over an unlink primitive that either fails or returns the new
  file system. The inner try/catch drops the failure of a key file; the outer one logs
  whatever the body raised and returns.
\<close>

fun cleanup_keys :: "(fs \<Rightarrow> string \<Rightarrow> 'e + fs) \<Rightarrow> server list \<Rightarrow> fs \<Rightarrow> fs" where
  "cleanup_keys unlink [] files = files"
| "cleanup_keys unlink (s # ss) files =
     cleanup_keys unlink ss
       (if uses_key s
        then (case unlink files (keyPath s) of Inl e \<Rightarrow> files | Inr files' \<Rightarrow> files')
        else files)"

definition cleanup_body ::
  "(fs \<Rightarrow> string \<Rightarrow> 'e + fs) \<Rightarrow> config \<Rightarrow> string \<Rightarrow> server list \<Rightarrow> fs \<Rightarrow> 'e + fs" where
  "cleanup_body unlink cfg inventoryId servers files =
     (case unlink files (inventoryPath cfg inventoryId) of
        Inl e \<Rightarrow> Inl e
      | Inr files1 \<Rightarrow> Inr (cleanup_keys unlink servers files1))"

text \<open>The state is the file system and the lines of \<^verbatim>\<open>console.error\<close>.\<close>

definition cleanupInventory ::
  "(fs \<Rightarrow> string \<Rightarrow> 'e + fs) \<Rightarrow> config \<Rightarrow> string \<Rightarrow> server list \<Rightarrow> fs \<times> 'e list \<Rightarrow> 'e + (fs \<times> 'e list)" where
  "cleanupInventory unlink cfg inventoryId servers st =
     (case cleanup_body unlink cfg inventoryId servers (fst st) of
        Inl e \<Rightarrow> Inr (fst st, snd st @ [e])
      | Inr files' \<Rightarrow> Inr (files', snd st))"

section \<open>Playbook service (playbookService.js)\<close>

subsection \<open>Objects\<close>

text \<open>
  An object is the list of its own properties in the order JavaScript lists them: the
  array indices first, in ascending numeric order, then the other names in the order of
  their creation. Assigning to a property that exists keeps its place. The credentials
  object maps a service to an object of fields.
\<close>

type_synonym fields = "(string \<times> string) list"
type_synonym credential_set = "(string \<times> fields) list"

definition digit_value :: "char \<Rightarrow> nat" where
  "digit_value c = length (takeWhile (\<lambda>d. d \<noteq> c) ''0123456789'')"

definition read_nat :: "string \<Rightarrow> nat" where
  "read_nat s = fold (\<lambda>c n. 10 * n + digit_value c) s 0"

text \<open>An array index: the canonical decimal text of a number below \<open>2^32 - 1\<close>.\<close>

definition array_index :: "string \<Rightarrow> bool" where
  "array_index k \<longleftrightarrow>
     k \<noteq> [] \<and> list_all is_digit k \<and> (if hd k = CHR ''0'' then k = ''0'' else True)
     \<and> read_nat k < 4294967295"

text \<open>A new property takes its place in the order.\<close>

fun js_insert :: "(string \<times> 'v) list \<Rightarrow> string \<Rightarrow> 'v \<Rightarrow> (string \<times> 'v) list" where
  "js_insert [] k v = [(k, v)]"
| "js_insert ((k', v') # m) k v =
     (if array_index k
      then (if array_index k'
            then (if read_nat k < read_nat k' then (k, v) # (k', v') # m
                  else (k', v') # js_insert m k v)
            else (k, v) # (k', v') # m)
      else (k', v') # js_insert m k v)"

fun js_replace :: "(string \<times> 'v) list \<Rightarrow> string \<Rightarrow> 'v \<Rightarrow> (string \<times> 'v) list" where
  "js_replace [] k v = []"
| "js_replace ((k', v') # m) k v = (if k' = k then (k, v) # m else (k', v') # js_replace m k v)"

definition js_set :: "(string \<times> 'v) list \<Rightarrow> string \<Rightarrow> 'v \<Rightarrow> (string \<times> 'v) list" where
  "js_set m k v = (if k \<in> set (map fst m) then js_replace m k v else js_insert m k v)"

text \<open>\<^verbatim>\<open>{ ...a, ...b }\<close>\<close>

definition js_spread :: "(string \<times> 'v) list \<Rightarrow> (string \<times> 'v) list \<Rightarrow> (string \<times> 'v) list" where
  "js_spread a b = fold (\<lambda>(k, v) m. js_set m k v) b a"

text \<open>
  The credentials object is a plain object: reading \<^verbatim>\<open>credentials[svc]\<close> for a name it
  does not own finds what \<^verbatim>\<open>Object.prototype\<close> has under that name, a function or, for
  \<^verbatim>\<open>__proto__\<close>, the prototype itself, and each of them is truthy.
\<close>

definition inherited_name :: "string \<Rightarrow> bool" where
  "inherited_name n \<longleftrightarrow>
     n \<in> set [''constructor'', ''__proto__'', ''hasOwnProperty'', ''isPrototypeOf'',
              ''propertyIsEnumerable'', ''toLocaleString'', ''toString'', ''valueOf'',
              ''__defineGetter__'', ''__defineSetter__'', ''__lookupGetter__'',
              ''__lookupSetter__'']"

text \<open>\<^verbatim>\<open>credentials[svc] || {}\<close>\<close>

definition fields_of :: "credential_set \<Rightarrow> string \<Rightarrow> fields" where
  "fields_of creds svc = (case map_of creds svc of None \<Rightarrow> [] | Some m \<Rightarrow> m)"

text \<open>
  \<^verbatim>\<open>if (!credentials[svc]) credentials[svc] = {}\<close>: no entry is made for an inherited
  name, which reads as truthy.
\<close>

definition ensure_entry :: "credential_set \<Rightarrow> string \<Rightarrow> credential_set" where
  "ensure_entry creds svc =
     (case map_of creds svc of
        None \<Rightarrow> if inherited_name svc then creds else js_set creds svc []
      | Some _ \<Rightarrow> creds)"

text \<open>
  \<^verbatim>\<open>credentials[svc][k] = v\<close> after the line above. Where the credentials own no entry
  the name is an inherited one and the assignment lands on \<^verbatim>\<open>Object\<close> or on
  \<^verbatim>\<open>Object.prototype\<close>: the credentials stay as they are (what the changed built-in
  objects do to the process afterwards is outside the model). Assigning a string to
  \<^verbatim>\<open>__proto__\<close> stores nothing.
\<close>

definition set_field :: "credential_set \<Rightarrow> string \<Rightarrow> string \<Rightarrow> string \<Rightarrow> credential_set" where
  "set_field creds svc k v =
     (case map_of creds svc of
        None \<Rightarrow> creds
      | Some m \<Rightarrow> if k = ''__proto__'' then creds else js_set creds svc (js_set m k v))"

definition credentialDefaults :: credential_set where
  "credentialDefaults =
     [(''mysql'', [(''path'', ''/tmp/mysql_credentials.txt'')]),
      (''mongodb'', [(''path'', ''/tmp/mongodb_credentials.txt'')])]"

subsection \<open>parseCredentials\<close>

text \<open>
  \<^verbatim>\<open>const [k, v] = segment.split('='); if (k && v) credentials[svc][k.trim()] = v.trim()\<close>
\<close>

definition record_segment :: "string \<Rightarrow> string \<Rightarrow> credential_set \<Rightarrow> credential_set" where
  "record_segment svc segment creds =
     (case split_on CHR ''='' segment of
        k # v # _ \<Rightarrow> if k \<noteq> [] \<and> v \<noteq> [] then set_field creds svc (trim k) (trim v) else creds
      | _ \<Rightarrow> creds)"

text \<open>
  \<^verbatim>\<open>/^<prefix>\s*(.+)$/i\<close>: the first capture group. The greedy \<^verbatim>\<open>\s*\<close> gives
  characters back only when nothing else is left for \<^verbatim>\<open>.+\<close>.
\<close>

definition match_prefix_ci :: "string \<Rightarrow> string \<Rightarrow> string option" where
  "match_prefix_ci prefix text =
     (if toLowerCase (take (length prefix) text) = toLowerCase prefix
      then (let body = drop (length prefix) text;
                rest = dropWhile is_space body
            in if rest \<noteq> []
               then (if list_ex is_line_terminator rest then None else Some rest)
               else (if body \<noteq> [] \<and> \<not> is_line_terminator (last body) then Some [last body] else None))
      else None)"

text \<open>The fixed patterns, in the order of the else-if chain: prefix, service, field.\<close>

definition credential_patterns :: "(string \<times> string \<times> string) list" where
  "credential_patterns =
     [(''MySQL user:'', ''mysql'', ''username''),
      (''MySQL password:'', ''mysql'', ''password''),
      (''MongoDB admin user:'', ''mongodb'', ''username''),
      (''MongoDB admin password:'', ''mongodb'', ''password''),
      (''MongoDB credentials stored in:'', ''mongodb'', ''path''),
      (''RabbitMQ Username:'', ''rabbitmq'', ''username''),
      (''RabbitMQ Password:'', ''rabbitmq'', ''password'')]"

fun match_patterns :: "(string \<times> string \<times> string) list \<Rightarrow> string \<Rightarrow> (string \<times> string \<times> string) option" where
  "match_patterns [] text = None"
| "match_patterns ((prefix, svc, field) # ps) text =
     (case match_prefix_ci prefix text of
        Some v \<Rightarrow> Some (svc, field, trim v)
      | None \<Rightarrow> match_patterns ps text)"

text \<open>One line of the loop of \<open>parseCredentials\<close>.\<close>

definition parseCredentialLine :: "string \<Rightarrow> credential_set \<Rightarrow> credential_set" where
  "parseCredentialLine line creds =
     (let trimmed = trim line
      in if startsWith trimmed ''CREDENTIALS|''
         then (case split_on CHR ''|'' trimmed of
                 _ # name # segments \<Rightarrow>
                   (let svc = toLowerCase name
                    in if svc \<noteq> []
                       then fold (record_segment svc) segments (ensure_entry creds svc)
                       else creds)
               | _ \<Rightarrow> creds)
         else (case match_patterns credential_patterns trimmed of
                 Some (svc, field, v) \<Rightarrow> set_field (ensure_entry creds svc) svc field v
               | None \<Rightarrow> creds))"

definition parseCredentials :: "string \<Rightarrow> credential_set \<Rightarrow> credential_set" where
  "parseCredentials text creds = fold parseCredentialLine (split_on CHR 0x0A text) creds"

subsection \<open>parseAnsibleOutput\<close>

text \<open>
  \<^verbatim>\<open>\[(.+?)\]\<close> at the start of a string: the name and the text after the closing
  bracket. The lazy group takes one character and then runs to the first closing bracket.
\<close>

definition bracketed :: "string \<Rightarrow> (string \<times> string) option" where
  "bracketed s =
     (case s of
        c0 # c # rest \<Rightarrow>
          if c0 = CHR ''['' \<and> \<not> is_line_terminator c
          then (let nm = takeWhile (\<lambda>x. x \<noteq> CHR '']'' \<and> \<not> is_line_terminator x) rest
                in case drop (length nm) rest of
                     d # after \<Rightarrow> if d = CHR '']'' then Some (c # nm, after) else None
                   | [] \<Rightarrow> None)
          else None
      | _ \<Rightarrow> None)"

text \<open>The leftmost position of a string at which a matcher succeeds.\<close>

fun search :: "(string \<Rightarrow> 'a option) \<Rightarrow> string \<Rightarrow> 'a option" where
  "search m [] = m []"
| "search m (c # cs) = (case m (c # cs) of Some r \<Rightarrow> Some r | None \<Rightarrow> search m cs)"

text \<open>\<^verbatim>\<open>/^(ok|changed|fatal|skipping):\s*\[(.+?)\]\s*(.*)/\<close>: status, host, message.\<close>

definition taskResultMatch :: "string \<Rightarrow> (string \<times> string \<times> string) option" where
  "taskResultMatch line =
     (case find (\<lambda>k. startsWith line (k @ '':'')) [''ok'', ''changed'', ''fatal'', ''skipping''] of
        None \<Rightarrow> None
      | Some status \<Rightarrow>
          (case bracketed (dropWhile is_space (drop (length status + 1) line)) of
             None \<Rightarrow> None
           | Some (host, after) \<Rightarrow>
               Some (status, host,
                     takeWhile (\<lambda>c. \<not> is_line_terminator c) (dropWhile is_space after))))"

text \<open>\<^verbatim>\<open><keyword>\s+\[(.+?)\]\<close> at the start of a string.\<close>

definition marker_at :: "string \<Rightarrow> string \<Rightarrow> string option" where
  "marker_at keyword s =
     (if startsWith s keyword
      then (case drop (length keyword) s of
              [] \<Rightarrow> None
            | c # r \<Rightarrow> if is_space c then map_option fst (bracketed (dropWhile is_space r)) else None)
      else None)"

text \<open>\<^verbatim>\<open>/TASK\s+\[(.+?)\]/\<close> and \<^verbatim>\<open>/PLAY\s+\[(.+?)\]/\<close>\<close>

definition taskMatch :: "string \<Rightarrow> string option" where
  "taskMatch line = search (marker_at ''TASK'') line"

definition playMatch :: "string \<Rightarrow> string option" where
  "playMatch line = search (marker_at ''PLAY'') line"

text \<open>\<^verbatim>\<open>(ok|changed|failed|unreachable)=(\d+)\<close> at the start of a string.\<close>

fun status_at :: "string list \<Rightarrow> string \<Rightarrow> (string \<times> string) option" where
  "status_at [] s = None"
| "status_at (k # ks) s =
     (if startsWith s (k @ ''='') \<and> takeWhile is_digit (drop (length k + 1) s) \<noteq> []
      then Some (k, takeWhile is_digit (drop (length k + 1) s))
      else status_at ks s)"

definition statusMatch :: "string \<Rightarrow> (string \<times> string) option" where
  "statusMatch line = search (status_at [''ok'', ''changed'', ''failed'', ''unreachable'']) line"

text \<open>
  What \<^verbatim>\<open>JSON.parse\<close> makes of a message, as far as the service looks at it: the
  \<^verbatim>\<open>msg\<close> property when it is defined (a list, or one value, each as \<^verbatim>\<open>String\<close>
  gives it), else a truthy \<^verbatim>\<open>stdout\<close> property, else any other value. \<open>None\<close> is
  a parse error. The parser belongs to the runtime and is a parameter of the model.
\<close>

datatype json_view = Msgs "string list" | Stdout string | OtherJson

datatype event =
    TaskResult (ev_status: string) (ev_host: string) (ev_task: string) (ev_message: string)
      (ev_line: string) (credentialUpdate: "(string option \<times> fields) option")
  | Task string string
  | Play string string
  | Status string string string
  | ErrorLine string

text \<open>\<^verbatim>\<open>credentials[service]\<close> for a service that is a string or null.\<close>

definition service_key :: "string option \<Rightarrow> string" where
  "service_key service = (case service of None \<Rightarrow> ''null'' | Some s \<Rightarrow> s)"

definition strip_arrow :: "string \<Rightarrow> string" where
  "strip_arrow m = (if startsWith m ''=>'' then dropWhile is_space (drop 2 m) else m)"

definition parseAnsibleOutput ::
  "(string \<Rightarrow> json_view option) \<Rightarrow> string \<Rightarrow> string \<Rightarrow> credential_set \<Rightarrow> string option
     \<Rightarrow> event option \<times> credential_set" where
  "parseAnsibleOutput json line currentTask creds service =
     (case taskResultMatch line of
        Some (status, host, message) \<Rightarrow>
          (let trimmedMessage = strip_arrow (trim message);
               creds1 = parseCredentials trimmedMessage creds;
               creds2 = (if startsWith trimmedMessage ''{''
                         then (case json trimmedMessage of
                                 Some (Msgs msgs) \<Rightarrow> fold parseCredentials msgs creds1
                               | _ \<Rightarrow> creds1)
                         else creds1);
               update = (case map_of creds2 (service_key service) of
                           None \<Rightarrow> None
                         | Some d \<Rightarrow> Some (service, d))
           in (Some (TaskResult status host currentTask trimmedMessage line update), creds2))
      | None \<Rightarrow>
          (case taskMatch line of
             Some t \<Rightarrow> (Some (Task t line), creds)
           | None \<Rightarrow>
               (case playMatch line of
                  Some p \<Rightarrow> (Some (Play p line), creds)
                | None \<Rightarrow>
                    (case statusMatch line of
                       Some (st, n) \<Rightarrow> (Some (Status st n line), creds)
                     | None \<Rightarrow> (None, creds)))))"

subsection \<open>executePlaybook\<close>

text \<open>The object a run resolves or rejects with; an absent property is \<open>None\<close>.\<close>

record exec_result =
  success :: bool
  error :: "string option"
  exitCode :: "int option option"
  stdout :: string
  stderr :: string
  fullOutput :: "string option"
  credentials :: "credential_set option"

datatype outcome = Resolved exec_result | Rejected exec_result

text \<open>
  The variables the handlers close over, the events passed to \<^verbatim>\<open>onOutput\<close> so far,
  and the promise: \<open>None\<close> while it is pending.
\<close>

record run_state =
  stdout_buf :: string
  stderr_buf :: string
  currentTask :: string
  creds :: credential_set
  emitted :: "event list"
  settled :: "outcome option"

record params =
  playbookType :: string
  onOutput :: bool
  json :: "string \<Rightarrow> json_view option"

definition currentService :: "params \<Rightarrow> string option" where
  "currentService p =
     (if playbookType p \<in> set [''mysql'', ''mongodb'', ''rabbitmq''] then Some (playbookType p) else None)"

text \<open>\<^verbatim>\<open>currentService && config.credentialDefaults[currentService]\<close>\<close>

definition service_defaults :: "params \<Rightarrow> (string \<times> fields) option" where
  "service_defaults p =
     (case currentService p of
        None \<Rightarrow> None
      | Some svc \<Rightarrow> (case map_of credentialDefaults svc of None \<Rightarrow> None | Some d \<Rightarrow> Some (svc, d)))"

definition initial :: "params \<Rightarrow> run_state" where
  "initial p =
     \<lparr>stdout_buf = [], stderr_buf = [], currentTask = [],
      creds = (case service_defaults p of None \<Rightarrow> [] | Some (svc, d) \<Rightarrow> [(svc, d)]),
      emitted = [], settled = None\<rparr>"

text \<open>A promise is settled once; later calls of resolve and reject do nothing.\<close>

definition settle :: "outcome \<Rightarrow> run_state \<Rightarrow> run_state" where
  "settle r st = (case settled st of None \<Rightarrow> st\<lparr>settled := Some r\<rparr> | Some _ \<Rightarrow> st)"

definition on_line :: "params \<Rightarrow> string \<Rightarrow> run_state \<Rightarrow> run_state" where
  "on_line p line st =
     (if trim line \<noteq> [] \<and> onOutput p
      then (case parseAnsibleOutput (json p) line (currentTask st) (creds st) (currentService p) of
              (None, creds') \<Rightarrow> st\<lparr>creds := creds'\<rparr>
            | (Some parsed, creds') \<Rightarrow>
                st\<lparr>creds := creds',
                   currentTask := (case parsed of Task t _ \<Rightarrow> t | _ \<Rightarrow> currentTask st),
                   emitted := emitted st @ [parsed]\<rparr>)
      else st)"

definition on_stdout :: "params \<Rightarrow> string \<Rightarrow> run_state \<Rightarrow> run_state" where
  "on_stdout p text st =
     fold (on_line p) (split_on CHR 0x0A text) (st\<lparr>stdout_buf := stdout_buf st @ text\<rparr>)"

definition on_stderr :: "params \<Rightarrow> string \<Rightarrow> run_state \<Rightarrow> run_state" where
  "on_stderr p text st =
     st\<lparr>stderr_buf := stderr_buf st @ text,
        emitted := (if onOutput p then emitted st @ [ErrorLine text] else emitted st)\<rparr>"

text \<open>The exit code is a number, or null when a signal ended the process.\<close>

definition code_text :: "int option \<Rightarrow> string" where
  "code_text code = (case code of None \<Rightarrow> ''null'' | Some n \<Rightarrow> show_int n)"

definition apply_defaults :: "params \<Rightarrow> credential_set \<Rightarrow> credential_set" where
  "apply_defaults p cs =
     (case service_defaults p of
        None \<Rightarrow> cs
      | Some (svc, d) \<Rightarrow> js_set cs svc (js_spread d (fields_of cs svc)))"

definition close_result :: "int option \<Rightarrow> run_state \<Rightarrow> outcome" where
  "close_result code st =
     (if code = Some 0
      then Resolved \<lparr>success = True, error = None, exitCode = None,
                     stdout = stdout_buf st, stderr = stderr_buf st, fullOutput = None,
                     credentials = Some (creds st)\<rparr>
      else Rejected \<lparr>success = False,
                     error = Some (if code = Some 2 then ''One or more tasks failed''
                                   else if code = Some 4 then ''One or more hosts unreachable''
                                   else ''Process exited with code '' @ code_text code),
                     exitCode = Some code,
                     stdout = stdout_buf st, stderr = stderr_buf st,
                     fullOutput = Some (stdout_buf st @ ''\<newline>'' @ stderr_buf st),
                     credentials = Some (creds st)\<rparr>)"

definition on_close :: "params \<Rightarrow> int option \<Rightarrow> run_state \<Rightarrow> run_state" where
  "on_close p code st =
     (let st1 = st\<lparr>creds := apply_defaults p (creds st)\<rparr>
      in settle (close_result code st1) st1)"

definition on_error :: "string \<Rightarrow> run_state \<Rightarrow> run_state" where
  "on_error message st =
     settle (Rejected \<lparr>success = False, error = Some message, exitCode = None,
                       stdout = stdout_buf st, stderr = stderr_buf st, fullOutput = None,
                       credentials = None\<rparr>) st"



text \<open>
  What the child process does, as the handlers see it. \<open>SpawnError\<close> is the error event of
  the child: the spawned program itself could not be started.
\<close>

datatype child_event = StdoutData string | StderrData string | Close "int option" | SpawnError string

fun handle :: "params \<Rightarrow> child_event \<Rightarrow> run_state \<Rightarrow> run_state" where
  "handle p (StdoutData text) st = on_stdout p text st"
| "handle p (StderrData text) st = on_stderr p text st"
| "handle p (Close code) st = on_close p code st"
| "handle p (SpawnError message) st = on_error message st"

definition executePlaybook :: "params \<Rightarrow> child_event list \<Rightarrow> run_state" where
  "executePlaybook p evs = fold (handle p) evs (initial p)"

fun is_data :: "child_event \<Rightarrow> bool" where
  "is_data (StdoutData _) = True"
| "is_data (StderrData _) = True"
| "is_data _ = False"

section \<open>The deprecated monolithic server (api-server.js)\<close>

text \<open>
  The same run in the server that the services replaced: \<open>recordCredential\<close>,
  \<open>processText\<close>, \<open>parseAnsibleOutput\<close> and the handlers of its \<open>executePlaybook\<close>.
\<close>

definition legacy_recordCredential ::
  "string \<Rightarrow> string \<Rightarrow> string \<Rightarrow> credential_set \<Rightarrow> credential_set" where
  "legacy_recordCredential service key v cs =
     (if service = [] \<or> key = [] then cs
      else (let normalizedService = toLowerCase service;
                cs1 = (case map_of cs normalizedService of
                         None \<Rightarrow>
                           if inherited_name normalizedService then cs
                           else js_set cs normalizedService (fields_of credentialDefaults normalizedService)
                       | Some _ \<Rightarrow> cs)
            in set_field cs1 normalizedService key v))"

definition legacy_record_segment :: "string \<Rightarrow> string \<Rightarrow> credential_set \<Rightarrow> credential_set" where
  "legacy_record_segment service segment cs =
     (case split_on CHR ''='' segment of
        k # v # _ \<Rightarrow> if k \<noteq> [] \<and> v \<noteq> [] then legacy_recordCredential service (trim k) (trim v) cs else cs
      | _ \<Rightarrow> cs)"

text \<open>
  What \<open>processText\<close> works on while one task result is parsed: the credentials, the
  display messages and the credential update of the event.
\<close>

record parse_state =
  ps_creds :: credential_set
  displayMessages :: "string list"
  ps_update :: "(string option \<times> fields) option"

definition legacy_processText :: "string \<Rightarrow> parse_state \<Rightarrow> parse_state" where
  "legacy_processText text ps =
     (let trimmedText = trim text
      in if trimmedText = [] then ps
         else if startsWith trimmedText ''CREDENTIALS|''
         then (case split_on CHR ''|'' trimmedText of
                 _ # service # segments \<Rightarrow>
                   (let cs = fold (legacy_record_segment service) segments (ps_creds ps);
                        normalizedService = toLowerCase service
                    in ps\<lparr>ps_creds := cs,
                          ps_update := (case map_of cs normalizedService of
                                          None \<Rightarrow> ps_update ps
                                        | Some d \<Rightarrow> Some (Some normalizedService, d))\<rparr>)
               | _ \<Rightarrow> ps)
         else (case match_patterns credential_patterns trimmedText of
                 Some (svc, field, v) \<Rightarrow> ps\<lparr>ps_creds := legacy_recordCredential svc field v (ps_creds ps)\<rparr>
               | None \<Rightarrow> ps\<lparr>displayMessages := displayMessages ps @ [trimmedText]\<rparr>))"

text \<open>\<^verbatim>\<open>displayMessages.join(' | ')\<close>\<close>

fun join_bar :: "string list \<Rightarrow> string" where
  "join_bar [] = []"
| "join_bar [x] = x"
| "join_bar (x # y # ys) = x @ '' | '' @ join_bar (y # ys)"

text \<open>The default entry a task result adds for the run's service when it has none.\<close>

definition legacy_result_defaults :: "params \<Rightarrow> credential_set \<Rightarrow> credential_set" where
  "legacy_result_defaults p cs =
     (case service_defaults p of
        None \<Rightarrow> cs
      | Some (svc, d) \<Rightarrow> (case map_of cs svc of None \<Rightarrow> js_set cs svc d | Some _ \<Rightarrow> cs))"

definition legacy_parseAnsibleOutput ::
  "params \<Rightarrow> string \<Rightarrow> string \<Rightarrow> credential_set \<Rightarrow> event option \<times> string \<times> credential_set" where
  "legacy_parseAnsibleOutput p line task cs =
     (case taskResultMatch line of
        Some (status, host, message) \<Rightarrow>
          (let trimmedMessage = strip_arrow (trim message);
               ps0 = \<lparr>ps_creds = cs, displayMessages = [], ps_update = None\<rparr>;
               ps1 = (if startsWith trimmedMessage ''{''
                      then (case json p trimmedMessage of
                              Some (Msgs rawMessages) \<Rightarrow> fold legacy_processText rawMessages ps0
                            | Some (Stdout out) \<Rightarrow> legacy_processText out ps0
                            | Some OtherJson \<Rightarrow> legacy_processText trimmedMessage ps0
                            | None \<Rightarrow> legacy_processText trimmedMessage ps0)
                      else legacy_processText trimmedMessage ps0)
           in (Some (TaskResult status host task (join_bar (displayMessages ps1)) line (ps_update ps1)),
               task, legacy_result_defaults p (ps_creds ps1)))
      | None \<Rightarrow>
          (case taskMatch line of
             Some t \<Rightarrow> (Some (Task t line), t, cs)
           | None \<Rightarrow>
               (case playMatch line of
                  Some pl \<Rightarrow> (Some (Play pl line), task, cs)
                | None \<Rightarrow>
                    (case statusMatch line of
                       Some (st, n) \<Rightarrow> (Some (Status st n line), task, cs)
                     | None \<Rightarrow> (None, task, cs)))))"

definition legacy_on_line :: "params \<Rightarrow> string \<Rightarrow> run_state \<Rightarrow> run_state" where
  "legacy_on_line p line st =
     (if trim line \<noteq> [] \<and> onOutput p
      then (case legacy_parseAnsibleOutput p line (currentTask st) (creds st) of
              (None, task, cs) \<Rightarrow> st\<lparr>currentTask := task, creds := cs\<rparr>
            | (Some parsed, task, cs) \<Rightarrow>
                st\<lparr>currentTask := task, creds := cs, emitted := emitted st @ [parsed]\<rparr>)
      else st)"

definition legacy_on_stdout :: "params \<Rightarrow> string \<Rightarrow> run_state \<Rightarrow> run_state" where
  "legacy_on_stdout p text st =
     fold (legacy_on_line p) (split_on CHR 0x0A text) (st\<lparr>stdout_buf := stdout_buf st @ text\<rparr>)"

text \<open>
  The loop of \<^verbatim>\<open>regex.exec(stdout)\<close> for the global pattern
  \<^verbatim>\<open>CREDENTIALS\|<service>\|([^\n]+)\<close>: the captures, left to right; the search goes on
  where the last match ended.
\<close>

fun scan_markers :: "string \<Rightarrow> string \<Rightarrow> string list" where
  "scan_markers marker [] = []"
| "scan_markers marker (c # cs) =
     (let found = takeWhile (\<lambda>x. x \<noteq> CHR 0x0A) (drop (length marker) (c # cs))
      in if startsWith (c # cs) marker \<and> found \<noteq> []
         then found # scan_markers marker (drop (length marker + length found - 1) cs)
         else scan_markers marker cs)"

definition legacy_fallback :: "string \<Rightarrow> string \<Rightarrow> credential_set \<Rightarrow> credential_set" where
  "legacy_fallback svc out cs =
     (if map_of cs svc = None \<or> length (fields_of cs svc) \<le> 1
      then fold (\<lambda>found cs'. fold (legacy_record_segment svc) (split_on CHR ''|'' found) cs')
             (scan_markers (''CREDENTIALS|'' @ svc @ ''|'') out) cs
      else cs)"

definition legacy_on_close :: "params \<Rightarrow> int option \<Rightarrow> run_state \<Rightarrow> run_state" where
  "legacy_on_close p code st =
     (if code = Some 0 \<or> code = Some 2
      then (let cs1 = (case currentService p of
                         None \<Rightarrow> creds st
                       | Some svc \<Rightarrow> legacy_fallback svc (stdout_buf st) (creds st));
                cs2 = apply_defaults p cs1;
                st1 = st\<lparr>creds := cs2\<rparr>
            in settle (Resolved \<lparr>success = True, error = None, exitCode = None,
                                 stdout = stdout_buf st, stderr = stderr_buf st, fullOutput = None,
                                 credentials = Some cs2\<rparr>) st1)
      else (let cs2 = apply_defaults p (creds st);
                st1 = st\<lparr>creds := cs2\<rparr>
            in settle (Rejected \<lparr>success = False,
                                 error = Some (''Process exited with code '' @ code_text code),
                                 exitCode = Some code,
                                 stdout = stdout_buf st, stderr = stderr_buf st,
                                 fullOutput = Some (stdout_buf st @ ''\<newline>'' @ stderr_buf st),
                                 credentials = Some cs2\<rparr>) st1))"

text \<open>The credentials start empty here: the defaults come with the first record.\<close>

definition legacy_initial :: run_state where
  "legacy_initial =
     \<lparr>stdout_buf = [], stderr_buf = [], currentTask = [], creds = [], emitted = [], settled = None\<rparr>"

fun legacy_handle :: "params \<Rightarrow> child_event \<Rightarrow> run_state \<Rightarrow> run_state" where
  "legacy_handle p (StdoutData text) st = legacy_on_stdout p text st"
| "legacy_handle p (StderrData text) st = on_stderr p text st"
| "legacy_handle p (Close code) st = legacy_on_close p code st"
| "legacy_handle p (SpawnError message) st = on_error message st"

definition legacy_executePlaybook :: "params \<Rightarrow> child_event list \<Rightarrow> run_state" where
  "legacy_executePlaybook p evs = fold (legacy_handle p) evs legacy_initial"

section \<open>Notions of the statements\<close>

text \<open>The object of an outcome, resolved or rejected.\<close>

definition result_of :: "outcome \<Rightarrow> exec_result" where
  "result_of oc = (case oc of Resolved r \<Rightarrow> r | Rejected r \<Rightarrow> r)"

text \<open>Every service name of a credentials object is its own lower-case form.\<close>

definition lower_keys :: "credential_set \<Rightarrow> bool" where
  "lower_keys cs \<longleftrightarrow> list_all (\<lambda>(k, m). toLowerCase k = k) cs"

text \<open>
  A credentials object as the service builds it: no property twice, in the object and in
  each entry, and lower-case service names.
\<close>

definition wf_creds :: "credential_set \<Rightarrow> bool" where
  "wf_creds cs \<longleftrightarrow>
     distinct (map fst cs) \<and> (\<forall>(k, m)\<in>set cs. toLowerCase k = k \<and> distinct (map fst m))"

definition wf_outcome :: "run_state \<Rightarrow> bool" where
  "wf_outcome st \<longleftrightarrow>
     (\<forall>oc cs. settled st = Some oc \<longrightarrow> credentials (result_of oc) = Some cs \<longrightarrow> wf_creds cs)"

text \<open>The \<^verbatim>\<open>path\<close> of \<^verbatim>\<open>config.credentialDefaults[svc]\<close>.\<close>

definition default_path :: "string \<Rightarrow> string option" where
  "default_path svc = map_of (fields_of credentialDefaults svc) ''path''"

text \<open>\<^verbatim>\<open>credentials[svc][k]\<close>, read from the own properties.\<close>

definition field_of :: "credential_set \<Rightarrow> string \<Rightarrow> string \<Rightarrow> string option" where
  "field_of cs svc k = map_of (fields_of cs svc) k"

text \<open>
  What parsing alone records for a run: the handlers from credentials that are empty at the
  start, without the default entry that \<open>initial\<close> puts there.
\<close>

definition parsed_only :: "params \<Rightarrow> child_event list \<Rightarrow> credential_set" where
  "parsed_only p evs = creds (fold (handle p) evs ((initial p)\<lparr>creds := []\<rparr>))"

text \<open>
  How the credentials \<open>c2\<close> of a run stand to the credentials \<open>c1\<close> of the same events
  without the default entry \<open>d\<close> of the service: the same entries apart from the
  service's, and the same fields, with those of \<open>d\<close> where parsing has recorded none.
\<close>

definition seeded :: "string \<Rightarrow> fields \<Rightarrow> credential_set \<Rightarrow> credential_set \<Rightarrow> bool" where
  "seeded svc d c1 c2 \<longleftrightarrow>
     (\<forall>s. s \<noteq> svc \<longrightarrow> (map_of c1 s = None \<longleftrightarrow> map_of c2 s = None))
     \<and> map_of c2 svc \<noteq> None
     \<and> (\<forall>s k. field_of c2 s k =
            (case field_of c1 s k of
               Some x \<Rightarrow> Some x
             | None \<Rightarrow> if s = svc then map_of d k else None))"

text \<open>
  The texts that \<open>parseAnsibleOutput\<close> hands to \<open>parseCredentials\<close> for the message of a task
  result: the message, and the \<^verbatim>\<open>msg\<close> strings when the message is JSON.
\<close>

definition message_texts :: "(string \<Rightarrow> json_view option) \<Rightarrow> string \<Rightarrow> string list" where
  "message_texts j trimmedMessage =
     trimmedMessage #
     (if startsWith trimmedMessage ''{''
      then (case j trimmedMessage of Some (Msgs msgs) \<Rightarrow> msgs | _ \<Rightarrow> [])
      else [])"

text \<open>A marker line that names an inherited name as its service.\<close>

definition prototype_line :: "string \<Rightarrow> bool" where
  "prototype_line line \<longleftrightarrow>
     (case split_on CHR ''|'' (trim line) of
        c # name # _ \<Rightarrow> c = ''CREDENTIALS'' \<and> inherited_name (toLowerCase name)
      | _ \<Rightarrow> False)"

text \<open>
  Output on which the model is the code: ASCII text, the strings out of JSON included, with
  no marker line that writes through an inherited name.
\<close>

definition plain_text :: "string \<Rightarrow> bool" where
  "plain_text text \<longleftrightarrow>
     ascii text \<and> list_all (\<lambda>l. if prototype_line l then False else True) (split_on CHR 0x0A text)"

definition plain_line :: "(string \<Rightarrow> json_view option) \<Rightarrow> string \<Rightarrow> bool" where
  "plain_line j line \<longleftrightarrow>
     (case taskResultMatch line of
        None \<Rightarrow> True
      | Some (status, host, message) \<Rightarrow> list_all plain_text (message_texts j (strip_arrow (trim message))))"

definition plain_event :: "params \<Rightarrow> child_event \<Rightarrow> bool" where
  "plain_event p e \<longleftrightarrow>
     (case e of
        StdoutData text \<Rightarrow> ascii text \<and> list_all (plain_line (json p)) (split_on CHR 0x0A text)
      | _ \<Rightarrow> True)"

text \<open>
  A server as the inventory builder reads it: each field reduced to what the builder looks
  at, the value where it is written out, its truth where only that is tested.
\<close>

definition keep_truthy :: "string option \<Rightarrow> string option" where
  "keep_truthy v = (if truthy v then v else None)"

definition as_read :: "server \<Rightarrow> server" where
  "as_read s =
     \<lparr>hostname = hostname s,
      ssh_port = Some (effective_port s),
      ssh_user = Some (js_or (ssh_user s) ''root''),
      ssh_user_type = (if js_or (ssh_user_type s) ''root'' = ''sudo'' then Some ''sudo'' else None),
      ssh_auth_type = (if js_or (ssh_auth_type s) ''password'' = ''key'' then Some ''key'' else None),
      ssh_key = (if truthy (ssh_key s) then Some ''key'' else None),
      password = keep_truthy (password s),
      sudo_password = keep_truthy (sudo_password s),
      role = keep_truthy (role s),
      ansible_user = keep_truthy (ansible_user s)\<rparr>"

section \<open>Example inputs\<close>

text \<open>A runtime whose \<^verbatim>\<open>JSON.parse\<close> rejects the text it is given.\<close>

definition no_json :: "string \<Rightarrow> json_view option" where
  "no_json text = None"

definition mysql_run :: params where
  "mysql_run = \<lparr>playbookType = ''mysql'', onOutput = True, json = no_json\<rparr>"

definition mongodb_run :: params where
  "mongodb_run = \<lparr>playbookType = ''mongodb'', onOutput = True, json = no_json\<rparr>"

definition example_config :: config where
  "example_config =
     \<lparr>sshCommonArgs = ''-o StrictHostKeyChecking=no'', inventoryDir = ''/srv/backend/.inventory''\<rparr>"

definition db_host :: server where
  "db_host =
     \<lparr>hostname = ''10.0.0.5'', ssh_port = Some 22, ssh_user = None, ssh_user_type = None,
      ssh_auth_type = None, ssh_key = None, password = Some ''pw'', sudo_password = None,
      role = Some ''mysql'', ansible_user = None\<rparr>"

definition nfs_host :: server where
  "nfs_host =
     \<lparr>hostname = ''10.0.0.5'', ssh_port = None, ssh_user = Some ''ops'', ssh_user_type = Some ''sudo'',
      ssh_auth_type = Some ''key'', ssh_key = Some ''KEY'', password = None, sudo_password = None,
      role = Some ''nfs'', ansible_user = None\<rparr>"

definition master_host :: server where
  "master_host =
     \<lparr>hostname = ''10.0.0.7'', ssh_port = Some 2222, ssh_user = None, ssh_user_type = None,
      ssh_auth_type = None, ssh_key = None, password = None, sudo_password = None,
      role = Some ''k8s-master'', ansible_user = None\<rparr>"

definition example_files :: fs where
  "example_files =
     [''/srv/backend/.inventory/a1b2.ini'' \<mapsto> ''[all]'', ''/tmp/ansible_key_10_0_0_5.pem'' \<mapsto> ''KEY'']"

text \<open>The same two servers, written differently where the builder does not look.\<close>

definition master_host_alt :: server where
  "master_host_alt =
     \<lparr>hostname = ''10.0.0.7'', ssh_port = Some 2222, ssh_user = Some ''root'', ssh_user_type = Some ''root'',
      ssh_auth_type = Some ''password'', ssh_key = None, password = Some [], sudo_password = None,
      role = Some ''k8s-master'', ansible_user = Some []\<rparr>"

definition nfs_host_alt :: server where
  "nfs_host_alt =
     \<lparr>hostname = ''10.0.0.5'', ssh_port = Some 22, ssh_user = Some ''ops'', ssh_user_type = Some ''sudo'',
      ssh_auth_type = Some ''key'', ssh_key = Some ''ANOTHER KEY'', password = Some [], sudo_password = None,
      role = Some ''nfs'', ansible_user = None\<rparr>"

text \<open>A host where every path can be written, and one where only the inventory directory can.\<close>

definition all_writable :: "string \<Rightarrow> bool" where
  "all_writable path = True"

definition inventory_writable :: "string \<Rightarrow> bool" where
  "inventory_writable path = startsWith path ''/srv/backend/.inventory/''"

section \<open>Properties of the inventory service\<close>

lemma show_nat_0: "show_nat 0 = ''0''"
  by (simp add: show_nat.simps digit_char_def)

lemma show_nat_nonempty: "show_nat n \<noteq> []"
  by (subst show_nat.simps) simp

lemma digit_char_inj: "a < 10 \<Longrightarrow> b < 10 \<Longrightarrow> digit_char a = digit_char b \<Longrightarrow> a = b"
proof -
  assume "a < 10" "b < 10" "digit_char a = digit_char b"
  moreover have "distinct ''0123456789''" by simp
  ultimately show "a = b"
    by (simp add: digit_char_def nth_eq_iff_index_eq)
qed

lemma show_nat_no_colon: "CHR '':'' \<notin> set (show_nat n)"
proof (induction n rule: show_nat.induct)
  case (1 n)
  have d: "digit_char k \<noteq> CHR '':''" if "k < 10" for k
  proof -
    have "digit_char k \<in> set ''0123456789''"
      unfolding digit_char_def using that by (intro nth_mem) simp
    then show ?thesis by auto
  qed
  show ?case
  proof (cases "n < 10")
    case True
    then show ?thesis using d[of n] by (subst show_nat.simps) auto
  next
    case False
    with 1 show ?thesis using d[of "n mod 10"] by (subst show_nat.simps) auto
  qed
qed

lemma show_nat_inj: "show_nat a = show_nat b \<Longrightarrow> a = b"
proof (induction a arbitrary: b rule: show_nat.induct)
  case (1 a)
  show ?case
  proof (cases "a < 10")
    case True
    show ?thesis
    proof (cases "b < 10")
      case b: True
      from 1(2) True b show ?thesis
        by (simp add: show_nat.simps[of a] show_nat.simps[of b] digit_char_inj)
    next
      case b: False
      from 1(2) True b show_nat_nonempty[of "b div 10"] show ?thesis
        by (simp add: show_nat.simps[of a] show_nat.simps[of b] Cons_eq_append_conv)
    qed
  next
    case False
    show ?thesis
    proof (cases "b < 10")
      case b: True
      from 1(2) False b show_nat_nonempty[of "a div 10"] show ?thesis
        by (simp add: show_nat.simps[of a] show_nat.simps[of b] append_eq_Cons_conv)
    next
      case b: False
      from 1(2) False b have "show_nat (a div 10) = show_nat (b div 10)"
        and "digit_char (a mod 10) = digit_char (b mod 10)"
        by (simp_all add: show_nat.simps[of a] show_nat.simps[of b])
      with 1(1)[OF False] have "a div 10 = b div 10" and "a mod 10 = b mod 10"
        by (auto intro: digit_char_inj)
      then show ?thesis by (metis div_mult_mod_eq)
    qed
  qed
qed

lemma split_at_last_colon:
  assumes "h1 @ CHR '':'' # d1 = h2 @ CHR '':'' # d2" "CHR '':'' \<notin> set d1" "CHR '':'' \<notin> set d2"
  shows "h1 = h2 \<and> d1 = d2"
proof -
  have "rev d1 @ CHR '':'' # rev h1 = rev d2 @ CHR '':'' # rev h2"
    using arg_cong[OF assms(1), of rev] by simp
  moreover have "takeWhile (\<lambda>c. c \<noteq> CHR '':'') (rev d1 @ CHR '':'' # rev h1) = rev d1"
    using assms(2) by (subst takeWhile_append2) auto
  moreover have "takeWhile (\<lambda>c. c \<noteq> CHR '':'') (rev d2 @ CHR '':'' # rev h2) = rev d2"
    using assms(3) by (subst takeWhile_append2) auto
  ultimately have "rev d1 = rev d2" by simp
  then have "d1 = d2" by simp
  with assms(1) show ?thesis by simp
qed

text \<open>The key of the env-check loop stands for the pair of host name and port.\<close>

lemma server_key_eq:
  "server_key s = server_key t \<longleftrightarrow> hostname s = hostname t \<and> effective_port s = effective_port t"
proof
  assume "server_key s = server_key t"
  then have "hostname s = hostname t \<and> show_nat (effective_port s) = show_nat (effective_port t)"
    unfolding server_key_def port_text_def
    by (intro split_at_last_colon) (simp_all add: show_nat_no_colon)
  then show "hostname s = hostname t \<and> effective_port s = effective_port t"
    by (auto dest: show_nat_inj)
qed (simp add: server_key_def port_text_def)

lemma unique_loop_inv:
  "seen = server_key ` set acc \<Longrightarrow> distinct (map server_key acc) \<Longrightarrow>
   distinct (map server_key (unique_loop seen acc ss)) \<and>
   server_key ` set (unique_loop seen acc ss) = seen \<union> server_key ` set ss"
proof (induction ss arbitrary: seen acc)
  case Nil
  then show ?case by simp
next
  case (Cons s ss)
  show ?case
  proof (cases "server_key s \<in> seen")
    case True
    with Cons.IH[of seen acc] Cons.prems show ?thesis by auto
  next
    case False
    have "insert (server_key s) seen = server_key ` set (acc @ [s])"
      using Cons.prems by auto
    moreover have "distinct (map server_key (acc @ [s]))"
      using Cons.prems False by auto
    ultimately show ?thesis
      using Cons.IH[of "insert (server_key s) seen" "acc @ [s]"] False by auto
  qed
qed

lemma uniqueServers_distinct: "distinct (map server_key (uniqueServers servers))"
  and uniqueServers_keys: "server_key ` set (uniqueServers servers) = server_key ` set servers"
  using unique_loop_inv[of "{}" "[]" servers] by (simp_all add: uniqueServers_def)

lemma count_one:
  "distinct (map f xs) \<Longrightarrow> k \<in> f ` set xs \<Longrightarrow> length (filter (\<lambda>x. f x = k) xs) = 1"
proof (induction xs)
  case Nil
  then show ?case by simp
next
  case (Cons x xs)
  show ?case
  proof (cases "f x = k")
    case True
    from Cons.prems(1) have "f x \<notin> f ` set xs" by simp
    then have "\<forall>y\<in>set xs. f y \<noteq> k" using True by blast
    then have "filter (\<lambda>y. f y = k) xs = []"
      by (simp add: filter_empty_conv)
    with True show ?thesis by simp
  next
    case False
    with Cons show ?thesis by auto
  qed
qed

lemma ev_db_line:
  "formatServerLine db_host ''server-0'' =
     ''server-0 ansible_host=10.0.0.5 ansible_port=22 ansible_user=root ansible_ssh_pass=pw''"
  by (simp add: formatServerLine_def db_host_def port_text_def effective_port_def show_nat.simps
      digit_char_def js_or_def truthy_def)

lemma ev_master_line:
  "formatServerLine master_host ''k8s-master-0'' =
     ''k8s-master-0 ansible_host=10.0.0.7 ansible_port=2222 ansible_user=root''"
  by (simp add: formatServerLine_def master_host_def port_text_def effective_port_def show_nat.simps
      digit_char_def js_or_def truthy_def)

text \<open>
  Claim C4. For the playbook type env-check the inventory is deduplicated by host name and
  port: two servers with the same host name and the same port (\<^verbatim>\<open>ssh_port || 22\<close>),
  whatever their roles, give a document with the one host line of the first; and in the
  document of any list that holds them, exactly one entry of the \<open>all\<close> group has that
  host name and port.
\<close>

theorem env_check_dedup:
  assumes "hostname s1 = hostname s2" and "effective_port s1 = effective_port s2"
  shows "generateInventoryContent cfg [s1, s2] ''env-check'' =
           ''[all]\<newline>'' @ formatServerLine s1 ''server-0'' @ ''\<newline>'' @ commonVars cfg [s1, s2]
       \<and> (s1 \<in> set servers \<longrightarrow> s2 \<in> set servers \<longrightarrow>
            generateInventoryContent cfg servers ''env-check'' =
              ''[all]\<newline>'' @ host_lines ''server-'' (uniqueServers servers) @ commonVars cfg servers
            \<and> length (filter (\<lambda>s. hostname s = hostname s1 \<and> effective_port s = effective_port s1)
                        (uniqueServers servers)) = 1)"
proof -
  have k: "server_key s2 = server_key s1"
    using assms by (simp add: server_key_eq)
  have a: "generateInventoryContent cfg [s1, s2] ''env-check'' =
           ''[all]\<newline>'' @ formatServerLine s1 ''server-0'' @ ''\<newline>'' @ commonVars cfg [s1, s2]"
    by (simp add: generateInventoryContent_def inventoryGroups_def uniqueServers_def k
        host_lines_def enumerate_eq_zip show_nat_0)
  have b: "generateInventoryContent cfg servers ''env-check'' =
              ''[all]\<newline>'' @ host_lines ''server-'' (uniqueServers servers) @ commonVars cfg servers"
    by (simp add: generateInventoryContent_def inventoryGroups_def)
  have c: "length (filter (\<lambda>s. hostname s = hostname s1 \<and> effective_port s = effective_port s1)
                        (uniqueServers servers)) = 1" if "s1 \<in> set servers"
  proof -
    have "length (filter (\<lambda>s. server_key s = server_key s1) (uniqueServers servers)) = 1"
      using that uniqueServers_distinct[of servers] uniqueServers_keys[of servers]
      by (intro count_one) auto
    then show ?thesis by (simp add: server_key_eq)
  qed
  from a b c show ?thesis by blast
qed

theorem env_check_dedup_witness:
  "hostname db_host = hostname nfs_host \<and> effective_port db_host = effective_port nfs_host
   \<and> role db_host \<noteq> role nfs_host
   \<and> generateInventoryContent example_config [db_host, nfs_host] ''env-check'' =
      ''[all]\<newline>server-0 ansible_host=10.0.0.5 ansible_port=22 ansible_user=root ansible_ssh_pass=pw\<newline>\<newline>[all:vars]\<newline>ansible_user=ubuntu\<newline>ansible_become=true\<newline>ansible_ssh_common_args='' @ [CHR 0x27] @ ''-o StrictHostKeyChecking=no'' @ [CHR 0x27] @ ''\<newline>''"
proof -
  have h: "hostname db_host = hostname nfs_host" "effective_port db_host = effective_port nfs_host"
    by (simp_all add: db_host_def nfs_host_def effective_port_def)
  show ?thesis
    using env_check_dedup[OF h, of example_config "[db_host, nfs_host]"] h
    by (simp add: ev_db_line commonVars_def defaultUser_def example_config_def truthy_def)
       (simp add: db_host_def nfs_host_def)
qed

text \<open>
  Claim C10. For the playbook type kubernetes a server whose role is none of the master and
  worker role names adds nothing to the groups of the document: the groups are those of
  the list without it, and the document is produced all the same.
\<close>

theorem kubernetes_unrecognised_role_omitted:
  assumes "\<not> master_role s" and "\<not> worker_role s"
  shows "inventoryGroups (xs @ s # ys) ''kubernetes'' = inventoryGroups (xs @ ys) ''kubernetes''"
  using assms by (simp add: inventoryGroups_def)

theorem kubernetes_unrecognised_role_omitted_witness:
  "\<not> master_role db_host \<and> \<not> worker_role db_host
   \<and> inventoryGroups ([master_host] @ db_host # []) ''kubernetes'' =
       ''[master]\<newline>k8s-master-0 ansible_host=10.0.0.7 ansible_port=2222 ansible_user=root\<newline>\<newline>[kubernetes:children]\<newline>master\<newline>''"
proof -
  have h: "\<not> master_role db_host" "\<not> worker_role db_host"
    by (simp_all add: master_role_def worker_role_def db_host_def)
  have m: "master_role master_host" "\<not> worker_role master_host"
    by (simp_all add: master_role_def worker_role_def master_host_def)
  show ?thesis
    using kubernetes_unrecognised_role_omitted[OF h, of "[master_host]" "[]"] h
    by (simp add: inventoryGroups_def m group_block_def child_line_def host_lines_def
        enumerate_eq_zip show_nat_0 ev_master_line)
qed

lemma effective_port_pos: "effective_port s \<noteq> 0"
  by (simp add: effective_port_def split: option.splits)

lemma as_read_port: "effective_port (as_read s) = effective_port s"
  using effective_port_pos[of s] by (simp add: as_read_def effective_port_def)

lemma as_read_key: "server_key (as_read s) = server_key s"
  by (simp add: server_key_def port_text_def as_read_port) (simp add: as_read_def)

lemma js_or_keep: "js_or (keep_truthy v) d = js_or v d"
  by (simp add: js_or_def keep_truthy_def truthy_def split: option.splits)

lemma truthy_keep: "truthy (keep_truthy v) = truthy v"
  by (simp add: keep_truthy_def truthy_def)

lemma the_keep: "truthy v \<Longrightarrow> the (keep_truthy v) = the v"
  by (simp add: keep_truthy_def)

lemma as_read_line: "formatServerLine (as_read s) name = formatServerLine s name"
proof -
  have p: "port_text (as_read s) = port_text s"
    by (simp add: port_text_def as_read_port)
  have k: "keyPath (as_read s) = keyPath s"
    by (simp add: keyPath_def as_read_def)
  have f: "hostname (as_read s) = hostname s"
    "js_or (ssh_user (as_read s)) ''root'' = js_or (ssh_user s) ''root''"
    "js_or (ssh_user_type (as_read s)) ''root'' = ''sudo'' \<longleftrightarrow> js_or (ssh_user_type s) ''root'' = ''sudo''"
    "js_or (ssh_auth_type (as_read s)) ''password'' = ''key'' \<longleftrightarrow> js_or (ssh_auth_type s) ''password'' = ''key''"
    "truthy (ssh_key (as_read s)) = truthy (ssh_key s)"
    "truthy (password (as_read s)) = truthy (password s)"
    "truthy (js_or_opt (sudo_password (as_read s)) (password (as_read s)))
       = truthy (js_or_opt (sudo_password s) (password s))"
    by (auto simp: as_read_def js_or_def truthy_def keep_truthy_def js_or_opt_def split: option.splits)
  have g: "truthy (password s) \<Longrightarrow> the (password (as_read s)) = the (password s)"
    "truthy (js_or_opt (sudo_password s) (password s)) \<Longrightarrow>
       the (js_or_opt (sudo_password (as_read s)) (password (as_read s)))
         = the (js_or_opt (sudo_password s) (password s))"
    by (auto simp: as_read_def truthy_def keep_truthy_def js_or_opt_def split: option.splits)
  show ?thesis
    unfolding formatServerLine_def Let_def p k f
    using g by auto
qed

lemma as_read_roles:
  "primary_role (as_read s) = primary_role s"
  "master_role (as_read s) = master_role s"
  "worker_role (as_read s) = worker_role s"
  "r \<noteq> [] \<Longrightarrow> has_role r (as_read s) = has_role r s"
  by (auto simp: as_read_def primary_role_def master_role_def worker_role_def has_role_def
      keep_truthy_def truthy_def split: option.splits)

lemma host_lines_as_read: "host_lines prefix (map as_read xs) = host_lines prefix xs"
proof -
  have "map (\<lambda>(idx, s). formatServerLine s (prefix @ show_nat idx) @ ''\<newline>'') (enumerate n (map as_read xs))
      = map (\<lambda>(idx, s). formatServerLine s (prefix @ show_nat idx) @ ''\<newline>'') (enumerate n xs)" for n
    by (induction xs arbitrary: n) (simp_all add: as_read_line)
  then show ?thesis by (simp add: host_lines_def)
qed

lemma group_block_as_read:
  "group_block header prefix (map as_read xs) = group_block header prefix xs"
  by (simp add: group_block_def host_lines_as_read)

lemma child_line_as_read: "child_line name (map as_read xs) = child_line name xs"
  by (simp add: child_line_def)

lemma filter_as_read:
  "(\<And>s. P (as_read s) = P s) \<Longrightarrow> filter P (map as_read xs) = map as_read (filter P xs)"
  by (induction xs) simp_all

lemma unique_loop_as_read:
  "unique_loop seen (map as_read acc) (map as_read ss) = map as_read (unique_loop seen acc ss)"
proof (induction ss arbitrary: seen acc)
  case Nil
  then show ?case by simp
next
  case (Cons s ss)
  from Cons.IH[of "insert (server_key s) seen" "acc @ [s]"] Cons.IH[of seen acc]
  show ?case by (simp add: as_read_key)
qed

lemma uniqueServers_as_read: "uniqueServers (map as_read xs) = map as_read (uniqueServers xs)"
  using unique_loop_as_read[of "{}" "[]" xs] by (simp add: uniqueServers_def)

lemma defaultUser_as_read: "defaultUser (map as_read xs) = defaultUser xs"
proof -
  have "(case find (\<lambda>s. truthy (ansible_user s)) (map as_read xs) of
           None \<Rightarrow> ''ubuntu'' | Some s \<Rightarrow> js_or (ansible_user s) ''ubuntu'')
      = (case find (\<lambda>s. truthy (ansible_user s)) xs of
           None \<Rightarrow> ''ubuntu'' | Some s \<Rightarrow> js_or (ansible_user s) ''ubuntu'')"
    by (induction xs) (auto simp: as_read_def truthy_keep js_or_keep)
  then show ?thesis by (simp add: defaultUser_def)
qed

lemma content_as_read:
  "generateInventoryContent cfg (map as_read servers) kind = generateInventoryContent cfg servers kind"
proof -
  have g: "inventoryGroups (map as_read servers) kind = inventoryGroups servers kind"
    unfolding inventoryGroups_def Let_def
    by (simp add: filter_as_read as_read_roles group_block_as_read child_line_as_read
        host_lines_as_read uniqueServers_as_read)
  show ?thesis
    by (simp add: generateInventoryContent_def g commonVars_def defaultUser_as_read)
qed

lemma generateInventory_written:
  assumes "generateInventory writable cfg inventoryId files servers kind = Inr ((i, path), files2)"
  shows "i = inventoryId \<and> path = inventoryPath cfg inventoryId
         \<and> files2 path = Some (generateInventoryContent cfg servers kind)"
  using assms
  by (auto simp: generateInventory_def Let_def fs_writeFile_def split: sum.splits if_splits)

text \<open>
  Claim C7. The inventory document is determined by what the builder reads of its inputs:
  two server lists that are equal, or that differ only where the builder does not look (an
  absent port and port 22, the content of a private key, an empty and an absent field),
  give the same text for every playbook type. Whatever the random identifier, the files
  present and the writable paths, a call of \<open>generateInventory\<close> that succeeds has written
  exactly this text to the inventory file, so the documents of two successful calls on
  such inputs are identical; only the path depends on the identifier.
\<close>

theorem inventory_deterministic:
  assumes "map as_read servers = map as_read servers'"
  shows "generateInventoryContent cfg servers kind = generateInventoryContent cfg servers' kind
     \<and> (generateInventory writable1 cfg id1 files1 servers kind = Inr ((i1, path1), written1)
        \<longrightarrow> generateInventory writable2 cfg id2 files2 servers' kind = Inr ((i2, path2), written2)
        \<longrightarrow> path1 = inventoryPath cfg id1 \<and> path2 = inventoryPath cfg id2
            \<and> written1 path1 = Some (generateInventoryContent cfg servers kind)
            \<and> written2 path2 = written1 path1)"
proof -
  have c: "generateInventoryContent cfg servers kind = generateInventoryContent cfg servers' kind"
    using content_as_read[of cfg servers kind] content_as_read[of cfg servers' kind] assms by simp
  show ?thesis
    using c generateInventory_written[of writable1 cfg id1 files1 servers kind i1 path1 written1]
      generateInventory_written[of writable2 cfg id2 files2 servers' kind i2 path2 written2]
    by auto
qed

lemma ev_as_read:
  "map as_read [master_host, nfs_host] = map as_read [master_host_alt, nfs_host_alt]"
  by (simp add: as_read_def master_host_def nfs_host_def master_host_alt_def nfs_host_alt_def
      effective_port_def js_or_def truthy_def keep_truthy_def)

lemma ev_kubernetes_content:
  "generateInventoryContent example_config [master_host, nfs_host] ''kubernetes''
     = ''[master]\<newline>k8s-master-0 ansible_host=10.0.0.7 ansible_port=2222 ansible_user=root\<newline>\<newline>[kubernetes:children]\<newline>master\<newline>\<newline>[all:vars]\<newline>ansible_user=ubuntu\<newline>ansible_become=true\<newline>ansible_ssh_common_args='' @ [CHR 0x27] @ ''-o StrictHostKeyChecking=no'' @ [CHR 0x27] @ ''\<newline>''"
proof -
  have h: "\<not> master_role nfs_host" "\<not> worker_role nfs_host"
    by (simp_all add: master_role_def worker_role_def nfs_host_def)
  have m: "master_role master_host" "\<not> worker_role master_host"
    by (simp_all add: master_role_def worker_role_def master_host_def)
  have u: "defaultUser [master_host, nfs_host] = ''ubuntu''"
    by (simp add: defaultUser_def master_host_def nfs_host_def truthy_def)
  show ?thesis
    by (simp add: generateInventoryContent_def inventoryGroups_def h m group_block_def child_line_def
        host_lines_def enumerate_eq_zip show_nat_0 ev_master_line commonVars_def u)
       (simp add: example_config_def)
qed

lemma ev_generate_first:
  "generateInventory all_writable example_config ''a1b2'' Map.empty [master_host, nfs_host] ''kubernetes''
     = Inr ((''a1b2'', ''/srv/backend/.inventory/a1b2.ini''),
            [''/tmp/ansible_key_10_0_0_5.pem'' \<mapsto> ''KEY'',
             ''/srv/backend/.inventory/a1b2.ini'' \<mapsto>
               generateInventoryContent example_config [master_host, nfs_host] ''kubernetes''])"
proof -
  have u: "\<not> uses_key master_host" "uses_key nfs_host" "ssh_key nfs_host = Some ''KEY''"
    by (simp_all add: uses_key_def master_host_def nfs_host_def truthy_def)
  have k: "keyPath nfs_host = ''/tmp/ansible_key_10_0_0_5.pem''"
    by (simp add: keyPath_def nfs_host_def)
  have p: "inventoryPath example_config ''a1b2'' = ''/srv/backend/.inventory/a1b2.ini''"
    by (simp add: inventoryPath_def example_config_def)
  show ?thesis
    by (simp add: generateInventory_def Let_def p u k fs_writeFile_def all_writable_def)
qed

lemma ev_generate_second:
  "generateInventory all_writable example_config ''ffee'' example_files [master_host_alt, nfs_host_alt] ''kubernetes''
     = Inr ((''ffee'', ''/srv/backend/.inventory/ffee.ini''),
            example_files(''/tmp/ansible_key_10_0_0_5.pem'' \<mapsto> ''ANOTHER KEY'',
              ''/srv/backend/.inventory/ffee.ini'' \<mapsto>
                generateInventoryContent example_config [master_host_alt, nfs_host_alt] ''kubernetes''))"
proof -
  have u: "\<not> uses_key master_host_alt" "uses_key nfs_host_alt" "ssh_key nfs_host_alt = Some ''ANOTHER KEY''"
    by (simp_all add: uses_key_def master_host_alt_def nfs_host_alt_def truthy_def)
  have k: "keyPath nfs_host_alt = ''/tmp/ansible_key_10_0_0_5.pem''"
    by (simp add: keyPath_def nfs_host_alt_def)
  have p: "inventoryPath example_config ''ffee'' = ''/srv/backend/.inventory/ffee.ini''"
    by (simp add: inventoryPath_def example_config_def)
  show ?thesis
    by (simp add: generateInventory_def Let_def p u k fs_writeFile_def all_writable_def)
qed

text \<open>Where the key file cannot be written the call is rejected and writes no inventory.\<close>

lemma ev_generate_rejected:
  "generateInventory inventory_writable example_config ''a1b2'' Map.empty [master_host, nfs_host] ''kubernetes''
     = Inl (ENOENT ''/tmp/ansible_key_10_0_0_5.pem'')"
proof -
  have u: "\<not> uses_key master_host" "uses_key nfs_host"
    by (simp_all add: uses_key_def master_host_def nfs_host_def truthy_def)
  have k: "keyPath nfs_host = ''/tmp/ansible_key_10_0_0_5.pem''"
    by (simp add: keyPath_def nfs_host_def)
  show ?thesis
    by (simp add: generateInventory_def Let_def u k fs_writeFile_def inventory_writable_def
        startsWith_def)
qed

theorem inventory_deterministic_witness:
  "map as_read [master_host, nfs_host] = map as_read [master_host_alt, nfs_host_alt]
   \<and> [master_host, nfs_host] \<noteq> [master_host_alt, nfs_host_alt]
   \<and> (\<exists>written1 written2.
         generateInventory all_writable example_config ''a1b2'' Map.empty [master_host, nfs_host] ''kubernetes''
           = Inr ((''a1b2'', ''/srv/backend/.inventory/a1b2.ini''), written1)
         \<and> generateInventory all_writable example_config ''ffee'' example_files
               [master_host_alt, nfs_host_alt] ''kubernetes''
           = Inr ((''ffee'', ''/srv/backend/.inventory/ffee.ini''), written2)
         \<and> written2 ''/srv/backend/.inventory/ffee.ini'' = written1 ''/srv/backend/.inventory/a1b2.ini''
         \<and> written1 ''/srv/backend/.inventory/a1b2.ini''
             = Some (''[master]\<newline>k8s-master-0 ansible_host=10.0.0.7 ansible_port=2222 ansible_user=root\<newline>\<newline>[kubernetes:children]\<newline>master\<newline>\<newline>[all:vars]\<newline>ansible_user=ubuntu\<newline>ansible_become=true\<newline>ansible_ssh_common_args='' @ [CHR 0x27] @ ''-o StrictHostKeyChecking=no'' @ [CHR 0x27] @ ''\<newline>''))"
proof -
  have d: "[master_host, nfs_host] \<noteq> [master_host_alt, nfs_host_alt]"
    by (simp add: master_host_def master_host_alt_def)
  obtain written1 where g1:
    "generateInventory all_writable example_config ''a1b2'' Map.empty [master_host, nfs_host] ''kubernetes''
       = Inr ((''a1b2'', ''/srv/backend/.inventory/a1b2.ini''), written1)"
    using ev_generate_first by blast
  obtain written2 where g2:
    "generateInventory all_writable example_config ''ffee'' example_files
         [master_host_alt, nfs_host_alt] ''kubernetes''
       = Inr ((''ffee'', ''/srv/backend/.inventory/ffee.ini''), written2)"
    using ev_generate_second by blast
  from inventory_deterministic[OF ev_as_read, THEN conjunct2, rule_format, OF g1 g2]
  have w: "written1 ''/srv/backend/.inventory/a1b2.ini''
             = Some (generateInventoryContent example_config [master_host, nfs_host] ''kubernetes'')"
    and e: "written2 ''/srv/backend/.inventory/ffee.ini'' = written1 ''/srv/backend/.inventory/a1b2.ini''"
    by blast+
  from w have w': "written1 ''/srv/backend/.inventory/a1b2.ini''
             = Some (''[master]\<newline>k8s-master-0 ansible_host=10.0.0.7 ansible_port=2222 ansible_user=root\<newline>\<newline>[kubernetes:children]\<newline>master\<newline>\<newline>[all:vars]\<newline>ansible_user=ubuntu\<newline>ansible_become=true\<newline>ansible_ssh_common_args='' @ [CHR 0x27] @ ''-o StrictHostKeyChecking=no'' @ [CHR 0x27] @ ''\<newline>'')"
    by (simp only: ev_kubernetes_content)
  from ev_as_read d g1 g2 e w' show ?thesis by blast
qed

lemma cleanup_keys_absent:
  "files p = None \<Longrightarrow> cleanup_keys fs_unlink servers files p = None"
  by (induction servers arbitrary: files) (auto simp: fs_unlink_def split: option.splits)

text \<open>
  Claim C8. \<open>cleanupInventory\<close> returns normally whatever the unlink primitive does: the
  error of the body is logged, not raised. After one call the inventory file is gone, so
  a second call for the same run finds nothing to remove, logs the missing file, leaves
  the files as they are, and returns.
\<close>

theorem cleanup_never_throws:
  "(\<exists>st'. cleanupInventory unlink cfg inventoryId servers st = Inr st') \<and>
   (cleanupInventory fs_unlink cfg inventoryId servers (files, log) = Inr (files1, log1) \<longrightarrow>
    cleanupInventory fs_unlink cfg inventoryId servers' (files1, log1)
      = Inr (files1, log1 @ [ENOENT (inventoryPath cfg inventoryId)]))"
proof -
  have a: "\<exists>st'. cleanupInventory unlink cfg inventoryId servers st = Inr st'"
    by (simp add: cleanupInventory_def split: sum.splits)
  have b: "cleanupInventory fs_unlink cfg inventoryId servers' (files1, log1)
      = Inr (files1, log1 @ [ENOENT (inventoryPath cfg inventoryId)])"
    if h: "cleanupInventory fs_unlink cfg inventoryId servers (files, log) = Inr (files1, log1)"
  proof -
    have gone: "files1 (inventoryPath cfg inventoryId) = None"
    proof (cases "files (inventoryPath cfg inventoryId)")
      case None
      with h show ?thesis
        by (auto simp: cleanupInventory_def cleanup_body_def fs_unlink_def)
    next
      case (Some c)
      with h have "files1 = cleanup_keys fs_unlink servers (files(inventoryPath cfg inventoryId := None))"
        by (auto simp: cleanupInventory_def cleanup_body_def fs_unlink_def)
      then show ?thesis by (simp add: cleanup_keys_absent)
    qed
    then show ?thesis
      by (simp add: cleanupInventory_def cleanup_body_def fs_unlink_def)
  qed
  from a b show ?thesis by blast
qed

theorem cleanup_never_throws_witness:
  "cleanupInventory fs_unlink example_config ''a1b2'' [db_host, nfs_host] (example_files, []) = Inr (Map.empty, [])
   \<and> cleanupInventory fs_unlink example_config ''a1b2'' [db_host, nfs_host] (Map.empty, [])
       = Inr (Map.empty, [ENOENT ''/srv/backend/.inventory/a1b2.ini''])"
proof -
  have p: "inventoryPath example_config ''a1b2'' = ''/srv/backend/.inventory/a1b2.ini''"
    by (simp add: inventoryPath_def example_config_def)
  have k: "keyPath nfs_host = ''/tmp/ansible_key_10_0_0_5.pem''"
    by (simp add: keyPath_def nfs_host_def)
  have u: "\<not> uses_key db_host" "uses_key nfs_host"
    by (simp_all add: uses_key_def db_host_def nfs_host_def truthy_def)
  have first: "cleanupInventory fs_unlink example_config ''a1b2'' [db_host, nfs_host] (example_files, [])
      = Inr (Map.empty, [])"
    by (simp add: cleanupInventory_def cleanup_body_def p k u fs_unlink_def example_files_def)
  show ?thesis
    using cleanup_never_throws[of fs_unlink example_config "''a1b2''" "[db_host, nfs_host]"
        "(example_files, [])" example_files "[]" Map.empty "[]" "[db_host, nfs_host]"] first
    by (simp add: p)
qed

section \<open>Properties of the playbook service\<close>

lemma settled_on_line: "settled (on_line p l st) = settled st"
  by (simp add: on_line_def split: prod.splits option.splits)

lemma settled_fold_on_line: "settled (fold (on_line p) ls st) = settled st"
  by (induction ls arbitrary: st) (simp_all add: settled_on_line)

lemma settled_data: "is_data e \<Longrightarrow> settled (handle p e st) = settled st"
  by (cases e) (simp_all add: on_stdout_def on_stderr_def settled_fold_on_line)

lemma settled_fold_data:
  "\<forall>e\<in>set evs. is_data e \<Longrightarrow> settled (fold (handle p) evs st) = settled st"
  by (induction evs arbitrary: st) (simp_all add: settled_data)

lemma pending_before_close:
  "\<forall>e\<in>set pre. is_data e \<Longrightarrow> settled (executePlaybook p pre) = None"
  by (simp add: executePlaybook_def settled_fold_data initial_def)

lemma executePlaybook_snoc:
  "executePlaybook p (pre @ [e]) = handle p e (executePlaybook p pre)"
  by (simp add: executePlaybook_def)



text \<open>
  Claim C1. When the process closes with a nonzero exit code \<open>n\<close> after any output, the
  promise is rejected with \<open>success = false\<close> and the error text: 'One or more tasks
  failed' for 2, 'One or more hosts unreachable' for 4, and 'Process exited with code n'
  for every other \<open>n\<close>.
\<close>

theorem nonzero_exit_rejects:
  assumes "\<forall>e\<in>set pre. is_data e" and "n \<noteq> 0"
  shows "\<exists>r. settled (executePlaybook p (pre @ [Close (Some n)])) = Some (Rejected r)
             \<and> success r = False
             \<and> exitCode r = Some (Some n)
             \<and> error r = Some (if n = 2 then ''One or more tasks failed''
                               else if n = 4 then ''One or more hosts unreachable''
                               else ''Process exited with code '' @ show_int n)"
  using assms pending_before_close[of pre p]
  by (simp add: executePlaybook_snoc on_close_def settle_def close_result_def code_text_def Let_def)

theorem nonzero_exit_rejects_witness:
  "(\<exists>r. settled (executePlaybook mysql_run ([StdoutData ''PLAY [db]\<newline>'', StderrData ''warn''] @ [Close (Some 2)]))
          = Some (Rejected r) \<and> success r = False \<and> exitCode r = Some (Some 2)
          \<and> error r = Some ''One or more tasks failed'')
   \<and> (\<exists>r. settled (executePlaybook mysql_run ([] @ [Close (Some 4)]))
          = Some (Rejected r) \<and> success r = False \<and> exitCode r = Some (Some 4)
          \<and> error r = Some ''One or more hosts unreachable'')
   \<and> (\<exists>r. settled (executePlaybook mysql_run ([] @ [Close (Some 127)]))
          = Some (Rejected r) \<and> success r = False \<and> exitCode r = Some (Some 127)
          \<and> error r = Some ''Process exited with code 127'')"
proof -
  have s: "show_int 127 = ''127''"
    by (simp add: show_int_def show_nat.simps digit_char_def)
  show ?thesis
    using nonzero_exit_rejects[of "[StdoutData ''PLAY [db]\<newline>'', StderrData ''warn'']" 2 mysql_run]
      nonzero_exit_rejects[of "[]" 4 mysql_run]
      nonzero_exit_rejects[of "[]" 127 mysql_run]
    by (simp add: s)
qed





lemma ev_missing_engine:
  "settled (executePlaybook mysql_run
        [StderrData ''/bin/sh: 1: ansible-playbook: not found\<newline>'', Close (Some 127)]) \<noteq> None"
  by code_simp


subsection \<open>Chunks and lines\<close>

lemma split_on_nonempty: "split_on sep s \<noteq> []"
  by (induction s) (auto split: list.splits)

lemma split_on_append_sep:
  "split_on sep (xs @ sep # ys) = split_on sep xs @ split_on sep ys"
proof (induction xs)
  case Nil
  then show ?case by simp
next
  case (Cons x xs)
  then show ?case
    using split_on_nonempty[of sep xs] by (auto split: list.splits)
qed

lemma split_on_none: "sep \<notin> set s \<Longrightarrow> split_on sep s = [s]"
  by (induction s) auto

lemma on_line_empty: "on_line p [] st = st"
  by (simp add: on_line_def trim_def)

lemma on_line_stdout_buf:
  "on_line p l (st\<lparr>stdout_buf := x\<rparr>) = (on_line p l st)\<lparr>stdout_buf := x\<rparr>"
  by (simp add: on_line_def split: prod.splits option.splits event.splits)

lemma fold_on_line_stdout_buf:
  "fold (on_line p) ls (st\<lparr>stdout_buf := x\<rparr>) = (fold (on_line p) ls st)\<lparr>stdout_buf := x\<rparr>"
  by (induction ls arbitrary: st) (simp_all add: on_line_stdout_buf)

lemma on_stdout_newline_chunk:
  "on_stdout p b (on_stdout p (xs @ [CHR 0x0A]) st) = on_stdout p (xs @ [CHR 0x0A] @ b) st"
  by (simp add: on_stdout_def split_on_append_sep on_line_empty fold_on_line_stdout_buf)

lemma on_stdout_empty_chunk: "on_stdout p [] st = st"
  by (simp add: on_stdout_def on_line_empty)

lemma on_stdout_join:
  assumes "a = [] \<or> last a = CHR 0x0A"
  shows "on_stdout p b (on_stdout p a st) = on_stdout p (a @ b) st"
proof (cases "a = []")
  case True
  then show ?thesis by (simp add: on_stdout_empty_chunk)
next
  case False
  with assms obtain xs where a: "a = xs @ [CHR 0x0A]"
    by (metis append_butlast_last_id)
  show ?thesis
    unfolding a using on_stdout_newline_chunk[of p b xs st] by simp
qed

lemma ev_split:
  "emitted (executePlaybook mysql_run [StdoutData ''TASK [set '', StdoutData ''ok=1]\<newline>''])
     = [Status ''ok'' ''1'' ''ok=1]'']"
  by code_simp

lemma ev_whole:
  "emitted (executePlaybook mysql_run [StdoutData ''TASK [set ok=1]\<newline>''])
     = [Task ''set ok=1'' ''TASK [set ok=1]'']"
  by code_simp

lemma ev_two_lines:
  "emitted (executePlaybook mysql_run [StdoutData ''PLAY [db]\<newline>'', StdoutData ''TASK [set ok=1]\<newline>''])
     = [Play ''db'' ''PLAY [db]'', Task ''set ok=1'' ''TASK [set ok=1]'']"
  by code_simp

text \<open>
  Claim C2, as stated, fails: the stdout handler splits each chunk on newlines by itself
  and holds nothing over. The line \<^verbatim>\<open>TASK [set ok=1]\<close> cut after \<^verbatim>\<open>TASK [set \<close> gives no
  task event; its second fragment is classified as a status line.
\<close>

theorem chunk_split_counterexample:
  "emitted (executePlaybook mysql_run [StdoutData ''TASK [set '', StdoutData ''ok=1]\<newline>''])
     \<noteq> emitted (executePlaybook mysql_run [StdoutData (''TASK [set '' @ ''ok=1]\<newline>'')])"
  using ev_split ev_whole by simp

text \<open>
  Claim C2, amended. When the first of two successive stdout chunks is empty or ends with a
  newline, feeding the two chunks leaves the run in the same state as feeding their
  concatenation as one chunk: the same events in the same order, the same buffers, current
  task and credentials.
\<close>

theorem chunks_on_line_boundaries:
  assumes "a = [] \<or> last a = CHR 0x0A"
  shows "executePlaybook p (pre @ [StdoutData a, StdoutData b] @ post)
           = executePlaybook p (pre @ [StdoutData (a @ b)] @ post)"
  using assms by (simp add: executePlaybook_def on_stdout_join)

theorem chunks_on_line_boundaries_witness:
  "emitted (executePlaybook mysql_run ([] @ [StdoutData ''PLAY [db]\<newline>'', StdoutData ''TASK [set ok=1]\<newline>''] @ []))
     = emitted (executePlaybook mysql_run ([] @ [StdoutData (''PLAY [db]\<newline>'' @ ''TASK [set ok=1]\<newline>'')] @ []))
   \<and> emitted (executePlaybook mysql_run [StdoutData ''PLAY [db]\<newline>'', StdoutData ''TASK [set ok=1]\<newline>''])
     = [Play ''db'' ''PLAY [db]'', Task ''set ok=1'' ''TASK [set ok=1]'']"
proof -
  have h: "''PLAY [db]\<newline>'' = [] \<or> last ''PLAY [db]\<newline>'' = CHR 0x0A" by simp
  show ?thesis
    using chunks_on_line_boundaries[OF h, of mysql_run "[]" "''TASK [set ok=1]\<newline>''" "[]"] ev_two_lines
    by simp
qed

subsection \<open>The credentials object\<close>

lemma lower_char_idem: "lower_char (lower_char c) = lower_char c"
  by (simp add: lower_char_def)

lemma toLowerCase_idem: "toLowerCase (toLowerCase s) = toLowerCase s"
  by (simp add: toLowerCase_def lower_char_idem)

lemma map_of_js_replace:
  "map_of (js_replace m k v) = (if k \<in> fst ` set m then (map_of m)(k \<mapsto> v) else map_of m)"
  by (induction m k v rule: js_replace.induct) (auto simp: fun_eq_iff)

lemma map_of_js_insert: "k \<notin> fst ` set m \<Longrightarrow> map_of (js_insert m k v) = (map_of m)(k \<mapsto> v)"
proof (induction m k v rule: js_insert.induct)
  case (1 k v)
  then show ?case by simp
next
  case (2 k' v' m k v)
  then show ?case
    by (cases "array_index k"; cases "array_index k'"; cases "read_nat k < read_nat k'")
       (auto simp: fun_eq_iff)
qed

lemma map_of_js_set: "map_of (js_set m k v) = (map_of m)(k \<mapsto> v)"
  by (simp add: js_set_def map_of_js_replace map_of_js_insert)

lemma keys_js_replace: "fst ` set (js_replace m k v) = fst ` set m"
  by (induction m k v rule: js_replace.induct) auto

lemma keys_js_insert: "fst ` set (js_insert m k v) = insert k (fst ` set m)"
  by (induction m k v rule: js_insert.induct) auto

lemma keys_js_set: "fst ` set (js_set m k v) = insert k (fst ` set m)"
  by (auto simp: js_set_def keys_js_replace keys_js_insert)

lemma distinct_js_replace: "distinct (map fst m) \<Longrightarrow> distinct (map fst (js_replace m k v))"
proof (induction m k v rule: js_replace.induct)
  case (1 k v)
  then show ?case by simp
next
  case (2 k' v' m k v)
  then show ?case using keys_js_replace[of m k v] by (auto simp: image_iff)
qed

lemma distinct_js_insert:
  "distinct (map fst m) \<Longrightarrow> k \<notin> fst ` set m \<Longrightarrow> distinct (map fst (js_insert m k v))"
proof (induction m k v rule: js_insert.induct)
  case (1 k v)
  then show ?case by simp
next
  case (2 k' v' m k v)
  then show ?case using keys_js_insert[of m k v] by (auto simp: image_iff)
qed

lemma distinct_js_set: "distinct (map fst m) \<Longrightarrow> distinct (map fst (js_set m k v))"
  by (simp add: js_set_def distinct_js_replace distinct_js_insert)

lemma set_js_replace: "set (js_replace m k v) \<subseteq> insert (k, v) (set m)"
  by (induction m k v rule: js_replace.induct) auto

lemma set_js_insert: "set (js_insert m k v) \<subseteq> insert (k, v) (set m)"
  by (induction m k v rule: js_insert.induct) auto

lemma set_js_set: "set (js_set m k v) \<subseteq> insert (k, v) (set m)"
  using set_js_replace[of m k v] set_js_insert[of m k v] by (simp add: js_set_def)

lemma map_of_js_spread:
  "distinct (map fst b) \<Longrightarrow>
     map_of (js_spread a b) k = (case map_of b k of None \<Rightarrow> map_of a k | Some x \<Rightarrow> Some x)"
  unfolding js_spread_def
proof (induction b arbitrary: a)
  case Nil
  then show ?case by simp
next
  case (Cons x b)
  obtain k' v' where x: "x = (k', v')" by (cases x)
  from Cons.prems have "map_of b k' = None" and "distinct (map fst b)"
    by (simp_all add: x map_of_eq_None_iff)
  with Cons.IH[of "js_set a k' v'"] show ?case
    by (auto simp: x map_of_js_set split: option.splits)
qed

lemma distinct_js_spread: "distinct (map fst a) \<Longrightarrow> distinct (map fst (js_spread a b))"
  unfolding js_spread_def
  by (induction b arbitrary: a) (auto simp: distinct_js_set)

lemma wf_lower_keys: "wf_creds cs \<Longrightarrow> lower_keys cs"
  by (auto simp: wf_creds_def lower_keys_def list_all_iff)

lemma wf_js_set:
  "wf_creds cs \<Longrightarrow> toLowerCase k = k \<Longrightarrow> distinct (map fst m) \<Longrightarrow> wf_creds (js_set cs k m)"
  unfolding wf_creds_def using set_js_set[of cs k m] by (auto simp: distinct_js_set)

lemma distinct_fields_of: "wf_creds cs \<Longrightarrow> distinct (map fst (fields_of cs svc))"
  by (auto simp: wf_creds_def fields_of_def split: option.splits dest!: map_of_SomeD)

lemma wf_ensure_entry: "wf_creds cs \<Longrightarrow> toLowerCase svc = svc \<Longrightarrow> wf_creds (ensure_entry cs svc)"
  by (simp add: ensure_entry_def wf_js_set split: option.splits)

lemma wf_set_field: "wf_creds cs \<Longrightarrow> toLowerCase svc = svc \<Longrightarrow> wf_creds (set_field cs svc k v)"
proof (cases "map_of cs svc")
  case None
  assume "wf_creds cs"
  with None show ?thesis by (simp add: set_field_def)
next
  case (Some m)
  assume w: "wf_creds cs" and l: "toLowerCase svc = svc"
  from distinct_fields_of[OF w, of svc] Some have "distinct (map fst m)"
    by (simp add: fields_of_def)
  with w l Some show ?thesis
    by (simp add: set_field_def wf_js_set distinct_js_set)
qed

lemma map_of_ensure_entry: "\<not> inherited_name svc \<Longrightarrow> map_of (ensure_entry cs svc) svc \<noteq> None"
  by (simp add: ensure_entry_def map_of_js_set split: option.splits)

lemma map_of_set_field:
  "map_of cs svc \<noteq> None \<Longrightarrow> k \<noteq> ''__proto__'' \<Longrightarrow>
     map_of (fields_of (set_field cs svc k v) svc) k = Some v"
  by (auto simp: set_field_def fields_of_def map_of_js_set)

lemma wf_record_segment:
  "wf_creds cs \<Longrightarrow> toLowerCase svc = svc \<Longrightarrow> wf_creds (record_segment svc seg cs)"
  by (simp add: record_segment_def wf_set_field split: list.splits)

lemma wf_fold_record_segment:
  "wf_creds cs \<Longrightarrow> toLowerCase svc = svc \<Longrightarrow> wf_creds (fold (record_segment svc) segs cs)"
  by (induction segs arbitrary: cs) (simp_all add: wf_record_segment)

lemma match_patterns_service:
  "match_patterns ps t = Some (svc, field, v) \<Longrightarrow> \<exists>prefix. (prefix, svc, field) \<in> set ps"
  by (induction ps t rule: match_patterns.induct) (auto split: option.splits)

lemma pattern_services_lower:
  "(prefix, svc, field) \<in> set credential_patterns \<Longrightarrow> toLowerCase svc = svc"
  by (auto simp: credential_patterns_def toLowerCase_def lower_char_def)

lemma pattern_services_own:
  "(prefix, svc, field) \<in> set credential_patterns \<Longrightarrow> \<not> inherited_name svc \<and> field \<noteq> ''__proto__''"
  by (auto simp: credential_patterns_def inherited_name_def)

lemma wf_parseCredentialLine: "wf_creds cs \<Longrightarrow> wf_creds (parseCredentialLine l cs)"
  by (auto simp: parseCredentialLine_def Let_def wf_fold_record_segment wf_ensure_entry wf_set_field
      toLowerCase_idem split: list.splits option.splits
      dest!: match_patterns_service pattern_services_lower)

lemma wf_parseCredentials: "wf_creds cs \<Longrightarrow> wf_creds (parseCredentials t cs)"
proof -
  have "wf_creds cs \<Longrightarrow> wf_creds (fold parseCredentialLine ls cs)" for ls
    by (induction ls arbitrary: cs) (simp_all add: wf_parseCredentialLine)
  then show "wf_creds cs \<Longrightarrow> wf_creds (parseCredentials t cs)"
    by (simp add: parseCredentials_def)
qed

lemma wf_fold_parseCredentials: "wf_creds cs \<Longrightarrow> wf_creds (fold parseCredentials ts cs)"
  by (induction ts arbitrary: cs) (simp_all add: wf_parseCredentials)

lemma wf_parseAnsibleOutput:
  "wf_creds cs \<Longrightarrow> wf_creds (snd (parseAnsibleOutput j l t cs svc))"
  by (simp add: parseAnsibleOutput_def Let_def wf_parseCredentials wf_fold_parseCredentials
      split: option.splits prod.splits json_view.splits)

lemma wf_on_line: "wf_creds (creds st) \<Longrightarrow> wf_creds (creds (on_line p l st))"
  using wf_parseAnsibleOutput[of "creds st" "json p" l "currentTask st" "currentService p"]
  by (auto simp: on_line_def split: prod.splits option.splits)

lemma wf_fold_on_line: "wf_creds (creds st) \<Longrightarrow> wf_creds (creds (fold (on_line p) ls st))"
  by (induction ls arbitrary: st) (simp_all add: wf_on_line)

lemma service_defaults_cases:
  "service_defaults p = Some (svc, d) \<Longrightarrow>
     svc = playbookType p \<and> (svc, d) \<in> set credentialDefaults"
  by (auto simp: service_defaults_def currentService_def split: if_splits option.splits
      dest: map_of_SomeD)

lemma defaults_lower:
  "(svc, d) \<in> set credentialDefaults \<Longrightarrow>
     toLowerCase svc = svc \<and> d = [(''path'', ''/tmp/'' @ svc @ ''_credentials.txt'')]"
  by (auto simp: credentialDefaults_def toLowerCase_def lower_char_def)

lemma wf_apply_defaults: "wf_creds cs \<Longrightarrow> wf_creds (apply_defaults p cs)"
  by (auto simp: apply_defaults_def split: option.splits
      dest!: service_defaults_cases defaults_lower intro!: wf_js_set distinct_js_spread)

lemma wf_initial: "wf_creds (creds (initial p))"
  by (auto simp: initial_def wf_creds_def split: option.splits
      dest!: service_defaults_cases defaults_lower)

lemma creds_settle: "creds (settle r st) = creds st"
  by (simp add: settle_def split: option.splits)

lemma wf_handle: "wf_creds (creds st) \<Longrightarrow> wf_creds (creds (handle p e st))"
  by (cases e)
     (simp_all add: on_stdout_def on_stderr_def on_close_def on_error_def Let_def creds_settle
        wf_fold_on_line wf_apply_defaults)

lemma wf_run: "wf_creds (creds st) \<Longrightarrow> wf_creds (creds (fold (handle p) evs st))"
  by (induction evs arbitrary: st) (simp_all add: wf_handle)

lemma wf_executePlaybook: "wf_creds (creds (executePlaybook p evs))"
  by (simp add: executePlaybook_def wf_run wf_initial)

lemma wf_outcome_handle:
  assumes "wf_creds (creds st)" "wf_outcome st"
  shows "wf_outcome (handle p e st)"
proof (cases e)
  case (StdoutData t)
  with assms(2) show ?thesis
    using settled_data[of e p st] by (simp add: wf_outcome_def)
next
  case (StderrData t)
  with assms(2) show ?thesis
    using settled_data[of e p st] by (simp add: wf_outcome_def)
next
  case (Close code)
  with assms show ?thesis
    using wf_apply_defaults[of "creds st" p]
    by (auto simp: wf_outcome_def on_close_def settle_def Let_def close_result_def result_of_def
        split: option.splits if_splits)
next
  case (SpawnError m)
  with assms show ?thesis
    by (auto simp: wf_outcome_def on_error_def settle_def result_of_def split: option.splits)
qed

lemma wf_outcome_run:
  "wf_creds (creds st) \<Longrightarrow> wf_outcome st \<Longrightarrow> wf_outcome (fold (handle p) evs st)"
  by (induction evs arbitrary: st) (simp_all add: wf_handle wf_outcome_handle)

lemma wf_outcome_executePlaybook: "wf_outcome (executePlaybook p evs)"
proof -
  have "wf_outcome (initial p)"
    by (simp add: wf_outcome_def initial_def)
  then show ?thesis
    using wf_outcome_run[OF wf_initial] by (simp add: executePlaybook_def)
qed

lemma trim_id: "s \<noteq> [] \<Longrightarrow> \<not> is_space (hd s) \<Longrightarrow> \<not> is_space (last s) \<Longrightarrow> trim s = s"
proof -
  assume a: "s \<noteq> []" "\<not> is_space (hd s)" "\<not> is_space (last s)"
  then have "dropWhile is_space s = s" by (cases s) simp_all
  moreover have "dropWhile is_space (rev s) = rev s"
    using a by (cases "rev s") (simp_all add: last_rev[symmetric] hd_rev)
  ultimately show ?thesis by (simp add: trim_def)
qed

lemma marker_line:
  assumes name: "name \<noteq> []" "CHR ''|'' \<notin> set name" "CHR 0x0A \<notin> set name"
      "\<not> inherited_name (toLowerCase name)"
    and k: "k \<noteq> []" "CHR ''|'' \<notin> set k" "CHR ''='' \<notin> set k" "CHR 0x0A \<notin> set k"
      "trim k \<noteq> ''__proto__''"
    and v: "v \<noteq> []" "CHR ''|'' \<notin> set v" "CHR ''='' \<notin> set v" "CHR 0x0A \<notin> set v" "\<not> is_space (last v)"
  shows "map_of (fields_of (parseCredentials (''CREDENTIALS|'' @ name @ ''|'' @ k @ ''='' @ v) cs)
            (toLowerCase name)) (trim k) = Some (trim v)"
proof -
  let ?line = "''CREDENTIALS|'' @ name @ ''|'' @ k @ ''='' @ v"
  have nl: "CHR 0x0A \<notin> set ?line" using name k v by auto
  have t: "trim ?line = ?line"
    using v by (intro trim_id) (simp_all add: is_space_def)
  have parts: "split_on CHR ''|'' ?line = [''CREDENTIALS'', name, k @ ''='' @ v]"
  proof -
    have "?line = ''CREDENTIALS'' @ CHR ''|'' # (name @ CHR ''|'' # (k @ ''='' @ v))" by simp
    then have "split_on CHR ''|'' ?line
        = split_on CHR ''|'' ''CREDENTIALS'' @ split_on CHR ''|'' name @ split_on CHR ''|'' (k @ ''='' @ v)"
      by (simp only: split_on_append_sep)
    moreover have "split_on CHR ''|'' ''CREDENTIALS'' = [''CREDENTIALS'']" by simp
    moreover have "split_on CHR ''|'' name = [name]" using name by (simp add: split_on_none)
    moreover have "split_on CHR ''|'' (k @ ''='' @ v) = [k @ ''='' @ v]"
      using k v by (intro split_on_none) auto
    ultimately show ?thesis by simp
  qed
  have seg: "split_on CHR ''='' (k @ ''='' @ v) = [k, v]"
  proof -
    have "split_on CHR ''='' (k @ CHR ''='' # v) = split_on CHR ''='' k @ split_on CHR ''='' v"
      by (rule split_on_append_sep)
    then show ?thesis using k v by (simp add: split_on_none)
  qed
  have low: "toLowerCase name \<noteq> []" using name by (simp add: toLowerCase_def)
  have "parseCredentials ?line cs
      = set_field (ensure_entry cs (toLowerCase name)) (toLowerCase name) (trim k) (trim v)"
    using k v
    by (simp add: parseCredentials_def split_on_none[OF nl] parseCredentialLine_def t parts low
        record_segment_def seg startsWith_def Let_def del: append.simps)
  then show ?thesis
    using map_of_ensure_entry[OF name(4), of cs] k(5) by (simp add: map_of_set_field)
qed

lemma pattern_line:
  assumes "\<not> startsWith (trim line) ''CREDENTIALS|''"
    and "match_patterns credential_patterns (trim line) = Some (svc, field, x)"
  shows "toLowerCase svc = svc \<and> map_of (fields_of (parseCredentialLine line cs) svc) field = Some x"
proof -
  from match_patterns_service[OF assms(2)] obtain prefix
    where m: "(prefix, svc, field) \<in> set credential_patterns" by blast
  have l: "toLowerCase svc = svc" using m by (rule pattern_services_lower)
  have o: "\<not> inherited_name svc" "field \<noteq> ''__proto__''"
    using pattern_services_own[OF m] by simp_all
  have "parseCredentialLine line cs = set_field (ensure_entry cs svc) svc field x"
    using assms by (simp add: parseCredentialLine_def Let_def)
  with l show ?thesis
    using map_of_ensure_entry[OF o(1), of cs] o(2) by (simp add: map_of_set_field)
qed

lemma map_of_apply_defaults:
  assumes "service_defaults p = Some (svc, d)" "wf_creds cs"
  shows "map_of (apply_defaults p cs) svc = Some (js_spread d (fields_of cs svc))"
    and "map_of (js_spread d (fields_of cs svc)) k
          = (case map_of (fields_of cs svc) k of None \<Rightarrow> map_of d k | Some x \<Rightarrow> Some x)"
proof -
  show "map_of (apply_defaults p cs) svc = Some (js_spread d (fields_of cs svc))"
    using assms(1) by (simp add: apply_defaults_def map_of_js_set)
  show "map_of (js_spread d (fields_of cs svc)) k
          = (case map_of (fields_of cs svc) k of None \<Rightarrow> map_of d k | Some x \<Rightarrow> Some x)"
    using distinct_fields_of[OF assms(2), of svc] by (rule map_of_js_spread)
qed

lemma service_defaults_known:
  "playbookType p = ''mysql'' \<or> playbookType p = ''mongodb'' \<Longrightarrow>
     service_defaults p = Some (playbookType p, fields_of credentialDefaults (playbookType p))
     \<and> default_path (playbookType p) = Some (''/tmp/'' @ playbookType p @ ''_credentials.txt'')
     \<and> \<not> inherited_name (playbookType p)"
  by (auto simp: service_defaults_def currentService_def credentialDefaults_def fields_of_def
      default_path_def inherited_name_def)

subsection \<open>A run and the same run without the default entry\<close>

lemma field_of_js_set:
  "field_of (js_set cs s m) s' k = (if s' = s then map_of m k else field_of cs s' k)"
  by (simp add: field_of_def fields_of_def map_of_js_set)

lemma field_of_ensure_entry: "field_of (ensure_entry cs s) s' k = field_of cs s' k"
  by (auto simp: ensure_entry_def field_of_js_set split: option.splits)
     (simp add: field_of_def fields_of_def)

lemma field_of_set_field:
  "field_of (set_field cs s k v) s' k' =
     (if map_of cs s \<noteq> None \<and> k \<noteq> ''__proto__'' \<and> s' = s \<and> k' = k then Some v
      else field_of cs s' k')"
  by (auto simp: set_field_def field_of_js_set map_of_js_set split: option.splits)
     (simp_all add: field_of_def fields_of_def)

lemma entry_set_field: "map_of (set_field cs s k v) s' = None \<longleftrightarrow> map_of cs s' = None"
  by (auto simp: set_field_def map_of_js_set split: option.splits if_splits)

lemma entry_ensure_entry:
  "map_of (ensure_entry cs s) s' = None \<longleftrightarrow> map_of cs s' = None \<and> (s' \<noteq> s \<or> inherited_name s)"
  by (auto simp: ensure_entry_def map_of_js_set split: option.splits if_splits)

lemma seeded_set_field:
  assumes "seeded svc d c1 c2" and "map_of c1 s = None \<longleftrightarrow> map_of c2 s = None"
  shows "seeded svc d (set_field c1 s k v) (set_field c2 s k v)"
  using assms unfolding seeded_def by (auto simp: field_of_set_field entry_set_field)

lemma seeded_record_segment:
  assumes "seeded svc d c1 c2" and "map_of c1 s = None \<longleftrightarrow> map_of c2 s = None"
  shows "seeded svc d (record_segment s seg c1) (record_segment s seg c2)
         \<and> (map_of (record_segment s seg c1) s = None \<longleftrightarrow> map_of (record_segment s seg c2) s = None)"
  using assms seeded_set_field[OF assms]
  by (simp add: record_segment_def entry_set_field split: list.splits)

lemma seeded_fold_record_segment:
  "seeded svc d c1 c2 \<Longrightarrow> (map_of c1 s = None \<longleftrightarrow> map_of c2 s = None) \<Longrightarrow>
     seeded svc d (fold (record_segment s) segs c1) (fold (record_segment s) segs c2)"
proof (induction segs arbitrary: c1 c2)
  case Nil
  then show ?case by simp
next
  case (Cons seg segs)
  from seeded_record_segment[OF Cons.prems, of seg] Cons.IH show ?case by simp
qed

lemma seeded_ensure_entry:
  assumes "seeded svc d c1 c2" and "\<not> inherited_name svc"
  shows "seeded svc d (ensure_entry c1 s) (ensure_entry c2 s)
         \<and> (map_of (ensure_entry c1 s) s = None \<longleftrightarrow> map_of (ensure_entry c2 s) s = None)"
proof -
  have e: "map_of (ensure_entry c1 s) s' = None \<longleftrightarrow> map_of (ensure_entry c2 s) s' = None"
    if "s' \<noteq> svc" for s'
    using assms(1) that unfolding seeded_def by (simp add: entry_ensure_entry)
  have x: "map_of (ensure_entry c1 s) s = None \<longleftrightarrow> map_of (ensure_entry c2 s) s = None"
  proof (cases "s = svc")
    case True
    with assms show ?thesis unfolding seeded_def by (simp add: entry_ensure_entry)
  next
    case False
    then show ?thesis by (rule e)
  qed
  have "map_of (ensure_entry c2 s) svc \<noteq> None"
    using assms(1) unfolding seeded_def by (simp add: entry_ensure_entry)
  with e x assms(1) show ?thesis
    unfolding seeded_def by (simp add: field_of_ensure_entry)
qed

lemma seeded_parseCredentialLine:
  assumes "seeded svc d c1 c2" and "\<not> inherited_name svc"
  shows "seeded svc d (parseCredentialLine l c1) (parseCredentialLine l c2)"
proof (cases "startsWith (trim l) ''CREDENTIALS|''")
  case True
  show ?thesis
  proof (cases "split_on CHR ''|'' (trim l)")
    case Nil
    with True assms(1) show ?thesis by (simp add: parseCredentialLine_def)
  next
    case (Cons c rest)
    show ?thesis
    proof (cases rest)
      case Nil
      with True Cons assms(1) show ?thesis by (simp add: parseCredentialLine_def)
    next
      case (Cons name segs)
      from seeded_ensure_entry[OF assms, of "toLowerCase name"]
      have "seeded svc d
              (fold (record_segment (toLowerCase name)) segs (ensure_entry c1 (toLowerCase name)))
              (fold (record_segment (toLowerCase name)) segs (ensure_entry c2 (toLowerCase name)))"
        by (intro seeded_fold_record_segment) simp_all
      with True \<open>split_on CHR ''|'' (trim l) = c # rest\<close> Cons assms(1) show ?thesis
        by (simp add: parseCredentialLine_def Let_def)
    qed
  qed
next
  case False
  show ?thesis
  proof (cases "match_patterns credential_patterns (trim l)")
    case None
    with False assms(1) show ?thesis by (simp add: parseCredentialLine_def)
  next
    case (Some r)
    obtain s f x where r: "r = (s, f, x)" by (cases r)
    from seeded_ensure_entry[OF assms, of s]
    have "seeded svc d (set_field (ensure_entry c1 s) s f x) (set_field (ensure_entry c2 s) s f x)"
      by (intro seeded_set_field) simp_all
    with False Some r show ?thesis by (simp add: parseCredentialLine_def)
  qed
qed

lemma seeded_parseCredentials:
  assumes "seeded svc d c1 c2" and "\<not> inherited_name svc"
  shows "seeded svc d (parseCredentials t c1) (parseCredentials t c2)"
proof -
  have "seeded svc d c1 c2 \<Longrightarrow>
      seeded svc d (fold parseCredentialLine ls c1) (fold parseCredentialLine ls c2)" for ls c1 c2
    by (induction ls arbitrary: c1 c2) (simp_all add: seeded_parseCredentialLine assms(2))
  with assms(1) show ?thesis by (simp add: parseCredentials_def)
qed

lemma seeded_fold_parseCredentials:
  "seeded svc d c1 c2 \<Longrightarrow> \<not> inherited_name svc \<Longrightarrow>
     seeded svc d (fold parseCredentials ts c1) (fold parseCredentials ts c2)"
  by (induction ts arbitrary: c1 c2) (simp_all add: seeded_parseCredentials)

text \<open>The credentials after a line: the texts of its message, parsed in turn.\<close>

lemma creds_parseAnsibleOutput:
  "snd (parseAnsibleOutput j l t cs svc) =
     (case taskResultMatch l of
        None \<Rightarrow> cs
      | Some (status, host, message) \<Rightarrow>
          fold parseCredentials (message_texts j (strip_arrow (trim message))) cs)"
  by (simp add: parseAnsibleOutput_def message_texts_def Let_def
      split: option.splits prod.splits json_view.splits)

lemma creds_on_line:
  "creds (on_line p l st) =
     (if trim l \<noteq> [] \<and> onOutput p
      then snd (parseAnsibleOutput (json p) l (currentTask st) (creds st) (currentService p))
      else creds st)"
  by (simp add: on_line_def split: prod.splits option.splits)

lemma seeded_on_line:
  assumes "seeded svc d (creds st1) (creds st2)" and "\<not> inherited_name svc"
  shows "seeded svc d (creds (on_line p l st1)) (creds (on_line p l st2))"
  using assms seeded_fold_parseCredentials[OF assms]
  by (simp add: creds_on_line creds_parseAnsibleOutput split: option.splits prod.splits)

lemma seeded_fold_on_line:
  "seeded svc d (creds st1) (creds st2) \<Longrightarrow> \<not> inherited_name svc \<Longrightarrow>
     seeded svc d (creds (fold (on_line p) ls st1)) (creds (fold (on_line p) ls st2))"
  by (induction ls arbitrary: st1 st2) (simp_all add: seeded_on_line)

lemma seeded_handle:
  assumes "seeded svc d (creds st1) (creds st2)" and "\<not> inherited_name svc" and "is_data e"
  shows "seeded svc d (creds (handle p e st1)) (creds (handle p e st2))"
proof (cases e)
  case (StdoutData t)
  have "seeded svc d (creds (st1\<lparr>stdout_buf := stdout_buf st1 @ t\<rparr>))
          (creds (st2\<lparr>stdout_buf := stdout_buf st2 @ t\<rparr>))"
    using assms(1) by simp
  from seeded_fold_on_line[OF this assms(2)] StdoutData show ?thesis
    by (simp add: on_stdout_def)
next
  case (StderrData t)
  with assms(1) show ?thesis by (simp add: on_stderr_def)
next
  case (Close c)
  with assms(3) show ?thesis by simp
next
  case (SpawnError m)
  with assms(3) show ?thesis by simp
qed

lemma seeded_run:
  "seeded svc d (creds st1) (creds st2) \<Longrightarrow> \<not> inherited_name svc \<Longrightarrow> \<forall>e\<in>set evs. is_data e \<Longrightarrow>
     seeded svc d (creds (fold (handle p) evs st1)) (creds (fold (handle p) evs st2))"
  by (induction evs arbitrary: st1 st2) (simp_all add: seeded_handle)

lemma seeded_executePlaybook:
  assumes "service_defaults p = Some (svc, d)" and "\<not> inherited_name svc" and "\<forall>e\<in>set evs. is_data e"
  shows "seeded svc d (parsed_only p evs) (creds (executePlaybook p evs))"
proof -
  have "seeded svc d (creds ((initial p)\<lparr>creds := []\<rparr>)) (creds (initial p))"
    using assms(1) by (simp add: seeded_def initial_def field_of_def fields_of_def)
  from seeded_run[OF this assms(2,3)] show ?thesis
    by (simp add: parsed_only_def executePlaybook_def)
qed

lemma ev_lower: "toLowerCase ''MySQL'' = ''mysql''"
  by code_simp

lemma ev_trim:
  "trim ''password'' = ''password''" "trim ''pw'' = ''pw''"
  "trim ''MySQL user: root'' = ''MySQL user: root''"
  by code_simp+

lemma ev_pattern:
  "match_patterns credential_patterns ''MySQL user: root'' = Some (''mysql'', ''username'', ''root'')"
  by code_simp

lemma ev_ascii:
  "ascii ''MySQL''" "ascii ''password''" "ascii ''pw''" "ascii ''MySQL user: root''"
  by code_simp+

lemma ev_own: "\<not> inherited_name ''mysql''"
  by code_simp

lemma ev_marker_run:
  "creds (executePlaybook mysql_run [StdoutData ''ok: [db1] => MySQL user: root\<newline>changed: [db1] => CREDENTIALS|MySQL|password=pw\<newline>''])
     = [(''mysql'', [(''path'', ''/tmp/mysql_credentials.txt''), (''username'', ''root''), (''password'', ''pw'')])]"
  by code_simp

text \<open>
  Claim C9. Every service name in the credentials of a run is lower case, in the state of
  the handlers after any events and in the object the run resolves or rejects with. A line
  \<^verbatim>\<open>CREDENTIALS|<name>|k=v\<close> of ASCII text records \<open>v\<close> for \<open>k\<close> under the lower-case
  form of the name, whatever its letter case, unless the name is one that a plain object
  inherits (\<^verbatim>\<open>constructor\<close>, \<^verbatim>\<open>__proto__\<close>) or the key is \<^verbatim>\<open>__proto__\<close>; a line of a
  fixed pattern records its value under the pattern's service name, which is lower case, so
  both write to the same entry.
\<close>

theorem service_keys_lowercase:
  "lower_keys (creds (executePlaybook p evs))
   \<and> (\<forall>oc cs. settled (executePlaybook p evs) = Some oc \<longrightarrow> credentials (result_of oc) = Some cs
         \<longrightarrow> lower_keys cs)
   \<and> (name \<noteq> [] \<and> k \<noteq> [] \<and> v \<noteq> [] \<and> \<not> is_space (last v)
        \<and> ascii name \<and> ascii k \<and> ascii v
        \<and> \<not> inherited_name (toLowerCase name) \<and> trim k \<noteq> ''__proto__''
        \<and> (\<forall>c\<in>set [CHR ''|'', CHR 0x0A]. c \<notin> set name \<and> c \<notin> set k \<and> c \<notin> set v)
        \<and> CHR ''='' \<notin> set k \<and> CHR ''='' \<notin> set v
      \<longrightarrow> map_of (fields_of (parseCredentials (''CREDENTIALS|'' @ name @ ''|'' @ k @ ''='' @ v) cs0)
              (toLowerCase name)) (trim k) = Some (trim v))
   \<and> (ascii line \<and> \<not> startsWith (trim line) ''CREDENTIALS|''
        \<and> match_patterns credential_patterns (trim line) = Some (svc, field, x)
      \<longrightarrow> toLowerCase svc = svc
          \<and> map_of (fields_of (parseCredentialLine line cs1) svc) field = Some x)"
proof -
  have a: "lower_keys (creds (executePlaybook p evs))"
    by (rule wf_lower_keys[OF wf_executePlaybook])
  have b: "\<forall>oc cs. settled (executePlaybook p evs) = Some oc \<longrightarrow> credentials (result_of oc) = Some cs
         \<longrightarrow> lower_keys cs"
    using wf_outcome_executePlaybook[of p evs] by (auto simp: wf_outcome_def intro: wf_lower_keys)
  have c: "map_of (fields_of (parseCredentials (''CREDENTIALS|'' @ name @ ''|'' @ k @ ''='' @ v) cs0)
              (toLowerCase name)) (trim k) = Some (trim v)"
    if "name \<noteq> [] \<and> k \<noteq> [] \<and> v \<noteq> [] \<and> \<not> is_space (last v)
        \<and> ascii name \<and> ascii k \<and> ascii v
        \<and> \<not> inherited_name (toLowerCase name) \<and> trim k \<noteq> ''__proto__''
        \<and> (\<forall>c\<in>set [CHR ''|'', CHR 0x0A]. c \<notin> set name \<and> c \<notin> set k \<and> c \<notin> set v)
        \<and> CHR ''='' \<notin> set k \<and> CHR ''='' \<notin> set v"
    using that by (intro marker_line) simp_all
  have d: "toLowerCase svc = svc \<and> map_of (fields_of (parseCredentialLine line cs1) svc) field = Some x"
    if "ascii line \<and> \<not> startsWith (trim line) ''CREDENTIALS|''
        \<and> match_patterns credential_patterns (trim line) = Some (svc, field, x)"
    using that pattern_line[of line svc field x cs1] by simp
  from a b c d show ?thesis by blast
qed

theorem service_keys_lowercase_witness:
  "lower_keys (creds (executePlaybook mysql_run [StdoutData ''ok: [db1] => MySQL user: root\<newline>changed: [db1] => CREDENTIALS|MySQL|password=pw\<newline>'']))
   \<and> creds (executePlaybook mysql_run [StdoutData ''ok: [db1] => MySQL user: root\<newline>changed: [db1] => CREDENTIALS|MySQL|password=pw\<newline>''])
       = [(''mysql'', [(''path'', ''/tmp/mysql_credentials.txt''), (''username'', ''root''), (''password'', ''pw'')])]
   \<and> map_of (fields_of (parseCredentials (''CREDENTIALS|'' @ ''MySQL'' @ ''|'' @ ''password'' @ ''='' @ ''pw'')
                 [(''mysql'', [(''username'', ''root'')])]) ''mysql'') ''password'' = Some ''pw''
   \<and> map_of (fields_of (parseCredentialLine ''MySQL user: root'' []) ''mysql'') ''username'' = Some ''root''"
proof -
  have s: "\<not> startsWith ''MySQL user: root'' ''CREDENTIALS|''"
    by (simp add: startsWith_def)
  have t: "''password'' \<noteq> ''__proto__''" by simp
  show ?thesis
    using service_keys_lowercase[of mysql_run
      "[StdoutData ''ok: [db1] => MySQL user: root\<newline>changed: [db1] => CREDENTIALS|MySQL|password=pw\<newline>'']"
      "''MySQL''" "''password''" "''pw''" "[(''mysql'', [(''username'', ''root'')])]"
      "''MySQL user: root''" "''mysql''" "''username''" "''root''" "[]"]
    by (simp add: ev_marker_run ev_lower ev_trim ev_pattern ev_ascii ev_own s t is_space_def
        del: append.simps)
qed

lemma ev_default_path:
  "default_path ''mysql'' = Some ''/tmp/mysql_credentials.txt''"
  "default_path ''mongodb'' = Some ''/tmp/mongodb_credentials.txt''"
  by code_simp+

lemma ev_user_plain:
  "\<forall>e\<in>set [StdoutData ''ok: [db1] => MySQL user: root\<newline>'']. is_data e \<and> plain_event mysql_run e"
  by code_simp

lemma ev_user_parsed:
  "field_of (parsed_only mysql_run [StdoutData ''ok: [db1] => MySQL user: root\<newline>'']) ''mysql'' ''path'' = None"
  by code_simp

lemma ev_path_plain:
  "\<forall>e\<in>set [StdoutData ''ok: [db1] => MongoDB credentials stored in: /root/mongo.txt\<newline>''].
      is_data e \<and> plain_event mongodb_run e"
  by code_simp

lemma ev_path_parsed:
  "field_of (parsed_only mongodb_run
       [StdoutData ''ok: [db1] => MongoDB credentials stored in: /root/mongo.txt\<newline>''])
     ''mongodb'' ''path'' = Some ''/root/mongo.txt''"
  by code_simp

text \<open>
  Claim C6. For the playbook types mysql and mongodb the object a run settles with, on
  exit code 0 and on any other exit code alike, has an entry for the service, and its
  \<^verbatim>\<open>path\<close> is the default path of the service whenever parsing the output has recorded
  no path for it, be it that other fields were recorded or nothing at all; where parsing
  has recorded a path, it is that path. The output is ASCII text without marker lines for
  inherited names.
\<close>

theorem default_path_injected:
  assumes "playbookType p = ''mysql'' \<or> playbookType p = ''mongodb''"
    and "\<forall>e\<in>set pre. is_data e \<and> plain_event p e"
  shows "\<exists>oc cs m. settled (executePlaybook p (pre @ [Close code])) = Some oc
           \<and> (success (result_of oc) \<longleftrightarrow> code = Some 0)
           \<and> credentials (result_of oc) = Some cs
           \<and> map_of cs (playbookType p) = Some m
           \<and> map_of m ''path'' =
               (case field_of (parsed_only p pre) (playbookType p) ''path'' of
                  None \<Rightarrow> default_path (playbookType p)
                | Some x \<Rightarrow> Some x)
           \<and> default_path (playbookType p) = Some (''/tmp/'' @ playbookType p @ ''_credentials.txt'')"
proof -
  let ?svc = "playbookType p"
  let ?st = "executePlaybook p pre"
  let ?d = "fields_of credentialDefaults ?svc"
  from service_defaults_known[OF assms(1)]
  have sd: "service_defaults p = Some (?svc, ?d)"
    and dp: "default_path ?svc = Some (''/tmp/'' @ ?svc @ ''_credentials.txt'')"
    and own: "\<not> inherited_name ?svc"
    by simp_all
  have data: "\<forall>e\<in>set pre. is_data e" using assms(2) by simp
  have wf: "wf_creds (creds ?st)" by (rule wf_executePlaybook)
  have pend: "settled ?st = None" using data by (rule pending_before_close)
  let ?m = "js_spread ?d (fields_of (creds ?st) ?svc)"
  have m1: "map_of (apply_defaults p (creds ?st)) ?svc = Some ?m"
    by (rule map_of_apply_defaults(1)[OF sd wf])
  have rel: "field_of (creds ?st) ?svc ''path'' =
      (case field_of (parsed_only p pre) ?svc ''path'' of Some x \<Rightarrow> Some x | None \<Rightarrow> map_of ?d ''path'')"
    using seeded_executePlaybook[OF sd own data] unfolding seeded_def by simp
  have m2: "map_of ?m ''path'' =
      (case field_of (parsed_only p pre) ?svc ''path'' of None \<Rightarrow> default_path ?svc | Some x \<Rightarrow> Some x)"
    using map_of_apply_defaults(2)[OF sd wf, of "''path''"] rel
    unfolding default_path_def field_of_def by (simp split: option.splits)
  let ?oc = "close_result code (?st\<lparr>creds := apply_defaults p (creds ?st)\<rparr>)"
  have "settled (executePlaybook p (pre @ [Close code])) = Some ?oc"
    using pend by (simp add: executePlaybook_snoc on_close_def settle_def Let_def)
  moreover have "(success (result_of ?oc) \<longleftrightarrow> code = Some 0)"
    and "credentials (result_of ?oc) = Some (apply_defaults p (creds ?st))"
    by (simp_all add: close_result_def result_of_def)
  ultimately show ?thesis using m1 m2 dp by blast
qed

theorem default_path_injected_witness:
  "(\<exists>oc cs m. settled (executePlaybook mysql_run ([StdoutData ''ok: [db1] => MySQL user: root\<newline>''] @ [Close (Some 2)])) = Some oc
      \<and> \<not> success (result_of oc)
      \<and> credentials (result_of oc) = Some cs
      \<and> map_of cs ''mysql'' = Some m
      \<and> map_of m ''path'' = Some ''/tmp/mysql_credentials.txt'')
   \<and> (\<exists>oc cs m. settled (executePlaybook mongodb_run
          ([StdoutData ''ok: [db1] => MongoDB credentials stored in: /root/mongo.txt\<newline>''] @ [Close (Some 0)])) = Some oc
      \<and> success (result_of oc)
      \<and> credentials (result_of oc) = Some cs
      \<and> map_of cs ''mongodb'' = Some m
      \<and> map_of m ''path'' = Some ''/root/mongo.txt'')"
proof -
  have t: "playbookType mysql_run = ''mysql''" "playbookType mongodb_run = ''mongodb''"
    by (simp_all add: mysql_run_def mongodb_run_def)
  have h1: "playbookType mysql_run = ''mysql'' \<or> playbookType mysql_run = ''mongodb''"
    and h2: "playbookType mongodb_run = ''mysql'' \<or> playbookType mongodb_run = ''mongodb''"
    by (simp_all add: t)
  have a: "\<exists>oc cs m. settled (executePlaybook mysql_run ([StdoutData ''ok: [db1] => MySQL user: root\<newline>''] @ [Close (Some 2)])) = Some oc
      \<and> \<not> success (result_of oc)
      \<and> credentials (result_of oc) = Some cs
      \<and> map_of cs ''mysql'' = Some m
      \<and> map_of m ''path'' = Some ''/tmp/mysql_credentials.txt''"
    using default_path_injected[OF h1 ev_user_plain, of "Some 2"]
    by (simp add: t ev_user_parsed ev_default_path)
  have b: "\<exists>oc cs m. settled (executePlaybook mongodb_run
          ([StdoutData ''ok: [db1] => MongoDB credentials stored in: /root/mongo.txt\<newline>''] @ [Close (Some 0)])) = Some oc
      \<and> success (result_of oc)
      \<and> credentials (result_of oc) = Some cs
      \<and> map_of cs ''mongodb'' = Some m
      \<and> map_of m ''path'' = Some ''/root/mongo.txt''"
    using default_path_injected[OF h2 ev_path_plain, of "Some 0"]
    by (simp add: t ev_path_parsed ev_default_path)
  from a b show ?thesis by blast
qed

text \<open>
  Claim C5. The marker line \<^verbatim>\<open>CREDENTIALS|mysql|username=admin|password=s3cret\<close> arrives
  cut in two chunks and the process exits with code 0. The playbook service has no scan of
  the stdout buffer after exit and resolves with the default path alone; the deprecated
  server, on the same events, scans the buffer and resolves with the user name and the
  password.
\<close>

theorem fallback_scan_missing:
  "settled (executePlaybook mysql_run
      [StdoutData ''ok: [db1] => CREDENTIALS|mysql|user'', StdoutData ''name=admin|password=s3cret\<newline>'',
       Close (Some 0)])
     = Some (Resolved \<lparr>success = True, error = None, exitCode = None,
          stdout = ''ok: [db1] => CREDENTIALS|mysql|username=admin|password=s3cret\<newline>'',
          stderr = [], fullOutput = None,
          credentials = Some [(''mysql'', [(''path'', ''/tmp/mysql_credentials.txt'')])]\<rparr>)
   \<and> settled (legacy_executePlaybook mysql_run
      [StdoutData ''ok: [db1] => CREDENTIALS|mysql|user'', StdoutData ''name=admin|password=s3cret\<newline>'',
       Close (Some 0)])
     = Some (Resolved \<lparr>success = True, error = None, exitCode = None,
          stdout = ''ok: [db1] => CREDENTIALS|mysql|username=admin|password=s3cret\<newline>'',
          stderr = [], fullOutput = None,
          credentials = Some [(''mysql'', [(''path'', ''/tmp/mysql_credentials.txt''),
                                (''username'', ''admin''), (''password'', ''s3cret'')])]\<rparr>)"
  by code_simp

text \<open>The deprecated server resolves on exit code 2, which the service rejects.\<close>

lemma legacy_exit_code_two_resolves:
  "settled st = None \<Longrightarrow>
     \<exists>r. settled (legacy_on_close p (Some 2) st) = Some (Resolved r) \<and> success r = True"
  by (simp add: legacy_on_close_def settle_def Let_def)

end
